theory Spec2Isabelle
  imports Complex_Main
begin

section \<open>Numbers of the source\<close>

text \<open>
  The program is TypeScript; its numbers are modelled as reals. Where the source leaves the
  finite numbers from finite operands (a division by zero or by a missing field, the square
  root of a negative number, a logarithm of a non-positive bound), the model says so with
  the constructors of \<open>jsnum\<close> or with \<open>None\<close>; rounding is not modelled.
\<close>

datatype jsnum = Num real | PosInfinity | NegInfinity | NaN

fun jsAdd :: "jsnum \<Rightarrow> jsnum \<Rightarrow> jsnum" where
  "jsAdd (Num a) (Num b) = Num (a + b)"
| "jsAdd NaN _ = NaN"
| "jsAdd _ NaN = NaN"
| "jsAdd PosInfinity NegInfinity = NaN"
| "jsAdd NegInfinity PosInfinity = NaN"
| "jsAdd PosInfinity _ = PosInfinity"
| "jsAdd _ PosInfinity = PosInfinity"
| "jsAdd NegInfinity _ = NegInfinity"
| "jsAdd _ NegInfinity = NegInfinity"

text \<open>\<open>jsScale c n\<close> is the product of \<open>n\<close> with the finite constant \<open>c\<close>.\<close>

fun jsScale :: "real \<Rightarrow> jsnum \<Rightarrow> jsnum" where
  "jsScale c (Num a) = Num (a * c)"
| "jsScale c NaN = NaN"
| "jsScale c PosInfinity = (if c > 0 then PosInfinity else if c < 0 then NegInfinity else NaN)"
| "jsScale c NegInfinity = (if c > 0 then NegInfinity else if c < 0 then PosInfinity else NaN)"

text \<open>The comparison \<open>a < b\<close> of the source: false as soon as one side is NaN.\<close>

fun jsLess :: "jsnum \<Rightarrow> jsnum \<Rightarrow> bool" where
  "jsLess (Num a) (Num b) = (a < b)"
| "jsLess NaN _ = False"
| "jsLess _ NaN = False"
| "jsLess NegInfinity NegInfinity = False"
| "jsLess NegInfinity _ = True"
| "jsLess PosInfinity _ = False"
| "jsLess (Num a) PosInfinity = True"
| "jsLess (Num a) NegInfinity = False"

text \<open>\<open>f / s\<close> for a finite non-zero \<open>f\<close> and a field \<open>s\<close> that may be missing or zero.\<close>

definition jsDiv :: "real \<Rightarrow> real option \<Rightarrow> jsnum" where
  "jsDiv f s = (case s of None \<Rightarrow> NaN
      | Some d \<Rightarrow> if d = 0 then (if f > 0 then PosInfinity else NegInfinity) else Num (f / d))"

text \<open>
  \<open>x || d\<close> for a field \<open>x\<close> that may be missing: \<open>undefined\<close>, \<open>0\<close>, NaN and the empty
  string are falsy and give \<open>d\<close>.
\<close>

definition orElse :: "real option \<Rightarrow> real \<Rightarrow> real" where
  "orElse x d = (case x of None \<Rightarrow> d | Some v \<Rightarrow> if v = 0 then d else v)"

definition orElseNum :: "jsnum option \<Rightarrow> jsnum \<Rightarrow> jsnum" where
  "orElseNum x d = (case x of None \<Rightarrow> d | Some NaN \<Rightarrow> d
      | Some (Num v) \<Rightarrow> if v = 0 then d else Num v | Some n \<Rightarrow> n)"

definition orElseStr :: "string option \<Rightarrow> 'a \<Rightarrow> (string \<Rightarrow> 'a) \<Rightarrow> 'a" where
  "orElseStr x d f = (case x of None \<Rightarrow> d | Some s \<Rightarrow> if s = [] then d else f s)"

text \<open>\<open>a % b\<close> on integers: the remainder takes the sign of the dividend.\<close>

definition jsRem :: "int \<Rightarrow> int \<Rightarrow> int" where
  "jsRem a b = sgn a * (\<bar>a\<bar> mod \<bar>b\<bar>)"

text \<open>\<open>xs[i]\<close>: \<open>undefined\<close> outside the array.\<close>

definition jsIndex :: "'a list \<Rightarrow> int \<Rightarrow> 'a option" where
  "jsIndex xs i = (if 0 \<le> i \<and> i < int (length xs) then Some (xs ! nat i) else None)"


section \<open>services/audioEngine.ts\<close>

datatype ctx_state = Suspended | Running | Closed

datatype osc_type = Sine | Triangle

datatype instrument =
  Chime | OrganSkank | WhaleStrike | UkulelePluck | MarimbaStrike | SteelDrumStrike

text \<open>
  A voice is one oscillator with its gain envelope, as the \<open>create...\<close> methods build it:
  who built it, the waveform, the frequency, start and stop time, the peak of the envelope
  and whether the envelope is also connected to the reverb.
\<close>

record voice =
  v_source :: instrument
  v_wave :: osc_type
  v_frequency :: real
  v_start :: real
  v_stop :: real
  v_peak :: real
  v_reverb :: bool

text \<open>The audio context: its state, its clock, and the oscillators started on it so far.\<close>

record AudioContext =
  state :: ctx_state
  currentTime :: real
  started :: "voice list"

text \<open>
  The fields of the engine that the trigger methods read; \<open>masterGain\<close> holds the gain
  value of the node, \<open>reverb\<close> says whether the convolver node exists.
\<close>

record AudioEngine =
  ctx :: "AudioContext option"
  masterGain :: "real option"
  reverb :: bool
  isShakerStarted :: bool

datatype error = TypeError

definition DRUM_FREQUENCIES :: "real list" where
  "DRUM_FREQUENCIES =
    [196.00, 220.00, 246.94, 261.63, 293.66, 329.63, 349.23, 392.00,
     440.00, 493.88, 523.25, 587.33, 659.25, 698.46, 783.99, 880.00]"

text \<open>\<open>osc.start(...)\<close> on the context of the engine.\<close>

definition startVoices :: "voice list \<Rightarrow> AudioEngine \<Rightarrow> AudioEngine" where
  "startVoices vs e = (case ctx e of None \<Rightarrow> e
      | Some c \<Rightarrow> e\<lparr>ctx := Some (c\<lparr>started := started c @ vs\<rparr>)\<rparr>)"

definition chimeVoices :: "real \<Rightarrow> voice list" where
  "chimeVoices now = map (\<lambda>(f, i).
      \<lparr>v_source = Chime, v_wave = Sine, v_frequency = f, v_start = now + i * 0.1,
       v_stop = now + i * 0.1 + 1.6, v_peak = 0.2, v_reverb = False\<rparr>)
    [(196, 0), (246.94, 1), (293.66, 2), (392, 3)]"

text \<open>
  \<open>playStartupChime\<close> returns without a sound when there is no context; it connects each
  envelope to \<open>this.masterGain!\<close>, which throws when the node is missing.
\<close>

definition playStartupChime :: "AudioEngine \<Rightarrow> error + AudioEngine" where
  "playStartupChime e = (case ctx e of None \<Rightarrow> Inr e
      | Some c \<Rightarrow> (case masterGain e of None \<Rightarrow> Inl TypeError
          | Some g \<Rightarrow> Inr (startVoices (chimeVoices (currentTime c)) e)))"

text \<open>
  \<open>getFrequencyFromValue\<close>, in two steps: the index computed from the value and the
  bounds, then the read of the scale at it. The index is NaN (here \<open>None\<close>) when \<open>low\<close> is
  not positive, \<open>high\<close> is negative or the two bounds are equal; with \<open>high = 0\<close> the ratio
  is \<open>0 / -Infinity\<close>, that is zero. A read at NaN or outside the array is \<open>undefined\<close>.
\<close>

definition frequencyIndex :: "real \<Rightarrow> real \<Rightarrow> real \<Rightarrow> int option" where
  "frequencyIndex btcValue low high =
    (if low \<le> 0 \<or> high < 0 \<or> low = high then None
     else
       let clampedVal = max low (min high btcValue);
           logMin = log 10 low;
           logMax = log 10 high;
           logVal = log 10 clampedVal;
           ratio = (if high = 0 then 0 else (logVal - logMin) / (logMax - logMin))
       in Some \<lfloor>(1 - ratio) * (real (length DRUM_FREQUENCIES) - 1)\<rfloor>)"

definition getFrequencyFromValue :: "real \<Rightarrow> real \<Rightarrow> real \<Rightarrow> real option" where
  "getFrequencyFromValue btcValue low high =
    (case frequencyIndex btcValue low high of None \<Rightarrow> None
     | Some index \<Rightarrow> jsIndex DRUM_FREQUENCIES index)"

text \<open>
  \<open>Math.log10\<close> returns a double. \<open>roundDouble\<close> rounds a real to the nearest number
  with a significand of 53 bits (in the normal range; a tie, which none of the values used
  below meets, goes up here and to even in IEEE arithmetic), and \<open>Math_log10\<close> is the
  logarithm so rounded.
\<close>

definition roundDouble :: "real \<Rightarrow> real" where
  "roundDouble x =
    (if x = 0 then 0
     else let e = \<lfloor>log 2 \<bar>x\<bar>\<rfloor> in real_of_int (round (x * 2 powi (52 - e))) * 2 powi (e - 52))"

definition Math_log10 :: "real \<Rightarrow> real" where
  "Math_log10 x = roundDouble (log 10 x)"

text \<open>
  The index computation of \<open>getFrequencyFromValue\<close> once more, with \<open>Math.log10\<close> as a
  parameter \<open>lg\<close>: when the logarithms of the two bounds coincide the ratio is \<open>0 / 0\<close> (or
  infinite), the index is not a number and the read of the scale is \<open>undefined\<close>.
  \<open>frequencyIndex\<close> above is this computation for the exact logarithm.
\<close>

definition frequencyIndexWith :: "(real \<Rightarrow> real) \<Rightarrow> real \<Rightarrow> real \<Rightarrow> real \<Rightarrow> int option" where
  "frequencyIndexWith lg btcValue low high =
    (if low \<le> 0 \<or> high < 0 then None
     else
       let clampedVal = max low (min high btcValue);
           logMin = lg low;
           logMax = lg high;
           logVal = lg clampedVal
       in if high = 0 then Some \<lfloor>(1 - 0) * (real (length DRUM_FREQUENCIES) - 1)\<rfloor>
          else if logMax = logMin then None
          else Some \<lfloor>(1 - (logVal - logMin) / (logMax - logMin))
                      * (real (length DRUM_FREQUENCIES) - 1)\<rfloor>)"

definition getFrequencyFromValueWith :: "(real \<Rightarrow> real) \<Rightarrow> real \<Rightarrow> real \<Rightarrow> real \<Rightarrow> real option" where
  "getFrequencyFromValueWith lg btcValue low high =
    (case frequencyIndexWith lg btcValue low high of None \<Rightarrow> None
     | Some index \<Rightarrow> jsIndex DRUM_FREQUENCIES index)"

definition organPartials :: "real \<Rightarrow> real \<Rightarrow> voice list" where
  "organPartials freq now =
    (let duration = 0.15; vol = 0.08 in
     map (\<lambda>(ratio, i).
       \<lparr>v_source = OrganSkank, v_wave = (if i = 0 then Triangle else Sine),
        v_frequency = freq * ratio, v_start = now, v_stop = now + duration + 0.1,
        v_peak = vol / (i + 1), v_reverb = False\<rparr>)
     [(1, 0), (2, 1), (1.5, 2)])"

definition createOrganSkank :: "real \<Rightarrow> AudioEngine \<Rightarrow> AudioEngine" where
  "createOrganSkank freq e = (case ctx e of None \<Rightarrow> e
      | Some c \<Rightarrow> (case masterGain e of None \<Rightarrow> e
          | Some g \<Rightarrow> startVoices (organPartials freq (currentTime c)) e))"

definition createWhaleStrike :: "jsnum \<Rightarrow> AudioEngine \<Rightarrow> AudioEngine" where
  "createWhaleStrike btcValue e = (case ctx e of None \<Rightarrow> e
      | Some c \<Rightarrow> (case masterGain e of None \<Rightarrow> e
          | Some g \<Rightarrow>
             (let now = currentTime c; baseFreq = 49.00; duration = 5.0; volume = 0.4 in
              startVoices
                [\<lparr>v_source = WhaleStrike, v_wave = Sine, v_frequency = baseFreq, v_start = now,
                  v_stop = now + duration + 0.1, v_peak = volume, v_reverb = False\<rparr>] e)))"

text \<open>
  The three pitched strikes take the frequency that \<open>getFrequencyFromValue\<close> returned;
  \<open>setValueAtTime\<close> throws a TypeError on a frequency that is not a finite number.
\<close>

definition createUkulelePluck :: "real option \<Rightarrow> real \<Rightarrow> AudioEngine \<Rightarrow> error + AudioEngine" where
  "createUkulelePluck freq btcValue e = (case ctx e of None \<Rightarrow> Inr e
      | Some c \<Rightarrow> (case masterGain e of None \<Rightarrow> Inr e
          | Some g \<Rightarrow>
             (let now = currentTime c; volume = 0.1 + (btcValue * 10); duration = 0.4 in
              case freq of None \<Rightarrow> Inl TypeError
              | Some f \<Rightarrow> Inr (startVoices
                  [\<lparr>v_source = UkulelePluck, v_wave = Triangle, v_frequency = f * 2, v_start = now,
                    v_stop = now + duration + 0.1, v_peak = volume, v_reverb = False\<rparr>] e))))"

definition createMarimbaStrike :: "real option \<Rightarrow> real \<Rightarrow> AudioEngine \<Rightarrow> error + AudioEngine" where
  "createMarimbaStrike freq btcValue e = (case ctx e of None \<Rightarrow> Inr e
      | Some c \<Rightarrow> (case masterGain e of None \<Rightarrow> Inr e
          | Some g \<Rightarrow>
             (let now = currentTime c; volume = 0.15 + (btcValue * 3); duration = 0.8 in
              case freq of None \<Rightarrow> Inl TypeError
              | Some f \<Rightarrow> Inr (startVoices
                  [\<lparr>v_source = MarimbaStrike, v_wave = Sine, v_frequency = f, v_start = now,
                    v_stop = now + duration + 0.1, v_peak = volume, v_reverb = False\<rparr>] e))))"

definition createSteelDrumStrike :: "real option \<Rightarrow> real \<Rightarrow> AudioEngine \<Rightarrow> error + AudioEngine" where
  "createSteelDrumStrike freq btcValue e = (case ctx e of None \<Rightarrow> Inr e
      | Some c \<Rightarrow> (case masterGain e of None \<Rightarrow> Inr e
          | Some g \<Rightarrow>
             (let now = currentTime c; duration = 1.5; volume = 0.2 + sqrt btcValue * 0.1 in
              case freq of None \<Rightarrow> Inl TypeError
              | Some f \<Rightarrow> Inr (startVoices
                  [\<lparr>v_source = SteelDrumStrike, v_wave = Triangle, v_frequency = f, v_start = now,
                    v_stop = now + duration + 0.1, v_peak = volume, v_reverb = reverb e\<rparr>] e))))"

text \<open>
  \<open>playTransaction\<close>. \<open>rnd\<close> is the value that \<open>Math.random()\<close> returns in the test of the
  skank beat (it is drawn only when \<open>btcValue > 0\<close> is false); \<open>beatPos\<close> is an integer.
  \<open>valueSats\<close> is any number. For \<open>Infinity\<close> the first two comparisons decide. For NaN
  every comparison is false: the last branch is taken, \<open>getFrequencyFromValue\<close> reads the
  scale at a NaN index, and \<open>createUkulelePluck\<close>, past its guard, passes the undefined
  frequency to \<open>setValueAtTime\<close>, which throws.
\<close>

definition playTransaction :: "AudioEngine \<Rightarrow> real \<Rightarrow> jsnum \<Rightarrow> int \<Rightarrow> error + AudioEngine" where
  "playTransaction e rnd valueSats beatPos =
    (case ctx e of None \<Rightarrow> Inr e
     | Some c \<Rightarrow>
        if state c \<noteq> Running then Inr e
        else
          let isSkankBeat = (jsRem beatPos 16 \<in> {4, 12}) in
          (case valueSats of
            Num v \<Rightarrow>
              (let btcValue = v / 100000000;
                   e1 = (if isSkankBeat \<and> (btcValue > 0 \<or> rnd < 0.3)
                         then createOrganSkank 392.00 e else e)
               in if btcValue \<le> 0 then Inr e1
                  else if btcValue \<ge> 1.0 then Inr (createWhaleStrike (Num btcValue) e1)
                  else if btcValue \<ge> 0.1 then
                    createSteelDrumStrike (getFrequencyFromValue btcValue 0.1 1.0) btcValue e1
                  else if btcValue \<ge> 0.01 then
                    createMarimbaStrike (getFrequencyFromValue btcValue 0.01 0.1) btcValue e1
                  else
                    createUkulelePluck (getFrequencyFromValue btcValue 0.00001 0.01) btcValue e1)
          | PosInfinity \<Rightarrow>
              Inr (createWhaleStrike PosInfinity
                     (if isSkankBeat then createOrganSkank 392.00 e else e))
          | NegInfinity \<Rightarrow>
              Inr (if isSkankBeat \<and> rnd < 0.3 then createOrganSkank 392.00 e else e)
          | NaN \<Rightarrow>
              (let e1 = (if isSkankBeat \<and> rnd < 0.3 then createOrganSkank 392.00 e else e)
               in (case masterGain e1 of None \<Rightarrow> Inr e1 | Some g \<Rightarrow> Inl TypeError))))"

definition playBlockConfirm :: "AudioEngine \<Rightarrow> error + AudioEngine" where
  "playBlockConfirm e = (case ctx e of None \<Rightarrow> Inr e
      | Some c \<Rightarrow> (case masterGain e of None \<Rightarrow> Inr e
          | Some g \<Rightarrow> playStartupChime e))"


section \<open>components/Visualizer.tsx\<close>

record Bubble =
  b_id :: string
  b_x :: real
  b_y :: jsnum
  b_radius :: jsnum
  b_vx :: real
  b_vy :: real
  b_baseHue :: jsnum
  b_alpha :: real
  b_life :: real
  b_value :: real
  b_feeRate :: jsnum
  b_noiseOffsets :: "real list"
  b_isWhale :: bool
  b_pulseOffset :: real

record Canvas =
  width :: real
  height :: real

text \<open>
  The state of the component that the particle code reads and writes: the canvas (\<open>None\<close>
  while \<open>canvasRef.current\<close> is null), the bubbles, the smoothed fee rate, the animation
  clock and the flash. Drawing calls and the hover test change none of them and are left out.
\<close>

record Visualizer =
  canvas :: "Canvas option"
  bubbles :: "Bubble list"
  avgFeeRate :: jsnum
  time :: real
  flashAlpha :: real

text \<open>The values that \<open>Math.random()\<close> returns during one \<open>addTransaction\<close>.\<close>

record Rand =
  r_id :: string
  r_x :: real
  r_vx :: real
  r_vy :: real
  r_pulse :: real
  r_noise :: "nat \<Rightarrow> real"

definition getHueFromFeeRate :: "real \<Rightarrow> real" where
  "getHueFromFeeRate feeRate =
    (if feeRate \<le> 1 then 210
     else if feeRate \<le> 50 then 210 - (feeRate / 50) * 70
     else if feeRate \<le> 150 then 140 - ((feeRate - 50) / 100) * 95
     else max 0 (45 - ((feeRate - 150) / 250) * 45))"

text \<open>
  The same function on a fee rate that is not finite: every comparison with NaN is false
  and \<open>Math.max(0, NaN)\<close> is NaN.
\<close>

fun getHueFromFeeRateNum :: "jsnum \<Rightarrow> jsnum" where
  "getHueFromFeeRateNum (Num f) = Num (getHueFromFeeRate f)"
| "getHueFromFeeRateNum NegInfinity = Num 210"
| "getHueFromFeeRateNum PosInfinity = Num 0"
| "getHueFromFeeRateNum NaN = NaN"

text \<open>
  \<open>addTransaction\<close>. \<open>Math.sqrt\<close> of a negative number is NaN, and so are the radius and the
  vertical position computed from it.
\<close>

definition addTransaction :: "Rand \<Rightarrow> string option \<Rightarrow> real \<Rightarrow> jsnum \<Rightarrow> Visualizer \<Rightarrow> Visualizer" where
  "addTransaction rnd tx_id tx_value tx_feeRate viz =
    (let btc = tx_value / 100000000;
         radius = (if btc * 30000 < 0 then NaN
                   else Num (max 20 (min 180 (sqrt (btc * 30000) + 30))));
         isWhale = (btc \<ge> 1.0)
     in case canvas viz of None \<Rightarrow> viz
        | Some cv \<Rightarrow>
           (let numVertices = 14;
                noiseOffsets = map (\<lambda>i. r_noise rnd i * pi * 2) [0..<numVertices]
            in viz\<lparr>bubbles := bubbles viz @
                 [\<lparr>b_id = orElseStr tx_id (r_id rnd) (\<lambda>s. s),
                   b_x = r_x rnd * width cv,
                   b_y = jsAdd (Num (height cv)) (jsScale 2 radius),
                   b_radius = radius,
                   b_vx = (r_vx rnd - 0.5) * 0.7,
                   b_vy = (if isWhale then - (r_vy rnd * 0.2 + 0.1) else - (r_vy rnd * 1.5 + 0.4)),
                   b_baseHue = getHueFromFeeRateNum tx_feeRate,
                   b_alpha = 0.85,
                   b_life = 1.0,
                   b_value = tx_value,
                   b_feeRate = tx_feeRate,
                   b_noiseOffsets = noiseOffsets,
                   b_isWhale = isWhale,
                   b_pulseOffset = r_pulse rnd * 1000\<rparr>],
               avgFeeRate := jsAdd (jsScale 0.98 (avgFeeRate viz)) (jsScale 0.02 tx_feeRate)\<rparr>))"

definition flashBlock :: "Visualizer \<Rightarrow> Visualizer" where
  "flashBlock viz = viz\<lparr>flashAlpha := 1.0\<rparr>"

text \<open>One turn of the loop body of \<open>render\<close> on a bubble, up to the test for removal.\<close>

definition moveBubble :: "real \<Rightarrow> Bubble \<Rightarrow> Bubble" where
  "moveBubble t b =
    (let x' = b_x b + (b_vx b + sin (t * 0.5 + b_pulseOffset b) * 0.4);
         y' = jsAdd (b_y b) (Num (b_vy b));
         life' = b_life b - 0.0007;
         alpha' = min 0.9 (life' * 3)
     in b\<lparr>b_x := x', b_y := y', b_life := life', b_alpha := alpha'\<rparr>)"

text \<open>The test \<open>b.life <= 0 || b.y + b.radius * 3 < 0\<close>.\<close>

definition expired :: "Bubble \<Rightarrow> bool" where
  "expired b = (b_life b \<le> 0 \<or> jsLess (jsAdd (b_y b) (jsScale 3 (b_radius b))) (Num 0))"

text \<open>\<open>bubbles.splice(i, 1)\<close>.\<close>

definition splice1 :: "nat \<Rightarrow> 'a list \<Rightarrow> 'a list" where
  "splice1 i xs = take i xs @ drop (Suc i) xs"

text \<open>
  The loop \<open>for (let i = bubbles.length - 1; i >= 0; i--)\<close>: \<open>bubbleLoop t n bs\<close> runs the
  turns for the indices \<open>n - 1\<close> down to \<open>0\<close>.
\<close>

fun bubbleLoop :: "real \<Rightarrow> nat \<Rightarrow> Bubble list \<Rightarrow> Bubble list" where
  "bubbleLoop t 0 bs = bs"
| "bubbleLoop t (Suc i) bs =
    (let b = moveBubble t (bs ! i);
         bs' = bs[i := b]
     in bubbleLoop t i (if expired b then splice1 i bs' else bs'))"

definition render :: "Visualizer \<Rightarrow> Visualizer" where
  "render viz =
    (let t = time viz + 0.015;
         bs = bubbleLoop t (length (bubbles viz)) (bubbles viz)
     in viz\<lparr>time := t, bubbles := bs,
            flashAlpha := (if flashAlpha viz > 0 then flashAlpha viz - 0.008 else flashAlpha viz)\<rparr>)"


section \<open>App.tsx\<close>

text \<open>
  A transaction as the socket delivers it (\<open>tx: any\<close>): every field may be missing. The
  queue holds the same objects with \<open>value\<close> and \<open>feeRate\<close> overwritten.
\<close>

record Tx =
  tx_txid :: "string option"
  tx_ident :: "string option"
  tx_val :: "real option"
  tx_fee :: "real option"
  tx_vsize :: "real option"
  tx_rate :: "jsnum option"

record MempoolStats =
  count :: real
  vsize :: real
  total_fee :: real

record App =
  txQueue :: "Tx list"
  beatIndex :: nat
  isAudioStarted :: bool
  mempoolStats :: MempoolStats
  audioEngine :: AudioEngine
  visualizerRef :: "Visualizer option"

definition BASE_INTERVAL :: real where
  "BASE_INTERVAL = 200"

text \<open>The values that \<open>Math.random()\<close> returns during one tick of the dispatcher.\<close>

record Draws =
  d_play :: real
  d_ghost :: real
  d_skank :: real
  d_bubble :: Rand

definition handleNewTransaction :: "Tx \<Rightarrow> App \<Rightarrow> App" where
  "handleNewTransaction tx app =
    (let value = orElse (tx_val tx)
                   (case tx_vsize tx of None \<Rightarrow> 10000
                    | Some s \<Rightarrow> if s = 0 then 10000 else s * 120);
         feeRate = orElseNum (tx_rate tx)
                     (case tx_fee tx of None \<Rightarrow> Num 1
                      | Some f \<Rightarrow> if f = 0 then Num 1 else jsDiv f (tx_vsize tx));
         stats = mempoolStats app;
         q = txQueue app @ [tx\<lparr>tx_val := Some value, tx_rate := Some feeRate\<rparr>]
     in app\<lparr>mempoolStats := stats\<lparr>count := count stats + 1\<rparr>,
            txQueue := (if length q > 5000 then drop 500 q else q)\<rparr>)"

text \<open>
  \<open>processNextTransaction\<close> returns the new state and the delay passed to \<open>setTimeout\<close>.
  An exception of \<open>playTransaction\<close> is not caught there: the tick ends with it, after the
  \<open>shift\<close>, and nothing is scheduled.
\<close>

definition processNextTransaction :: "Draws \<Rightarrow> App \<Rightarrow> error + (App \<times> real)" where
  "processNextTransaction d app =
    (let qLen = length (txQueue app);
         isEvenBeat = (beatIndex app mod 2 = 0);
         swingFactor = (if qLen > 100 then 1.8 else 1.4);
         stepDuration0 = (if isEvenBeat then BASE_INTERVAL * swingFactor
                          else BASE_INTERVAL * (2 - swingFactor));
         congestionSpeedUp = min 2.5 (1 + real qLen / 150);
         stepDuration1 = stepDuration0 / congestionSpeedUp;
         stepDuration = max 40 stepDuration1;
         isStrongBeat = (beatIndex app mod 4 = 0);
         probability = (if isStrongBeat then 0.95 else 0.6);
         shouldPlay = (qLen > 0 \<and> d_play d < probability);
         played =
           (if shouldPlay then
              (case txQueue app of [] \<Rightarrow> Inr app
               | tx # rest \<Rightarrow>
                  (let value = orElse (tx_val tx) 0;
                       feeRate = orElseNum (tx_rate tx) (Num 1)
                   in case playTransaction (audioEngine app) (d_skank d) (Num value)
                             (int (beatIndex app)) of
                        Inl err \<Rightarrow> Inl err
                      | Inr e' \<Rightarrow> Inr (app\<lparr>txQueue := rest, audioEngine := e',
                          visualizerRef := map_option
                            (addTransaction (d_bubble d)
                               (orElseStr (tx_txid tx) (tx_ident tx) Some)
                               value feeRate)
                            (visualizerRef app)\<rparr>)))
            else if isEvenBeat \<and> isAudioStarted app \<and> d_ghost d < 0.2 then
              (case playTransaction (audioEngine app) (d_skank d) (Num 0)
                      (int (beatIndex app)) of
                 Inl err \<Rightarrow> Inl err
               | Inr e' \<Rightarrow> Inr (app\<lparr>audioEngine := e'\<rparr>))
            else Inr app)
     in case played of
          Inl err \<Rightarrow> Inl err
        | Inr app' \<Rightarrow> Inr (app'\<lparr>beatIndex := (beatIndex app' + 1) mod 16\<rparr>, stepDuration))"

text \<open>
  The dispatcher as the specification words it: the step duration from the queue length
  and the beat index, for a nominal interval \<open>base\<close>.
\<close>

definition spec_swingFactor :: "nat \<Rightarrow> real" where
  "spec_swingFactor qLen = (if qLen > 100 then 1.8 else 1.4)"

definition spec_stepDuration :: "real \<Rightarrow> nat \<Rightarrow> nat \<Rightarrow> real" where
  "spec_stepDuration base qLen b =
    max 40 ((if even b then base * spec_swingFactor qLen else base * (2 - spec_swingFactor qLen))
            / min 2.5 (1 + real qLen / 150))"


section \<open>Pitch from value\<close>

lemma length_DRUM_FREQUENCIES: "length DRUM_FREQUENCIES = 16"
  by (simp add: DRUM_FREQUENCIES_def)

lemma sorted_DRUM_FREQUENCIES: "sorted DRUM_FREQUENCIES"
  by (simp add: DRUM_FREQUENCIES_def)

lemma ratio_bounds:
  assumes "0 < low" "low < high"
  shows "0 \<le> (log 10 (max low (min high v)) - log 10 low) / (log 10 high - log 10 low)"
    and "(log 10 (max low (min high v)) - log 10 low) / (log 10 high - log 10 low) \<le> 1"
proof -
  let ?c = "max low (min high v)"
  have c: "low \<le> ?c" "?c \<le> high" "0 < ?c" using assms by auto
  have d: "0 < log 10 high - log 10 low" using assms by simp
  have n0: "0 \<le> log 10 ?c - log 10 low" using assms c by simp
  have n1: "log 10 ?c - log 10 low \<le> log 10 high - log 10 low" using assms c by simp
  show "0 \<le> (log 10 ?c - log 10 low) / (log 10 high - log 10 low)"
    using n0 d by simp
  show "(log 10 ?c - log 10 low) / (log 10 high - log 10 low) \<le> 1"
    using n1 d by simp
qed

lemma ratio_mono:
  assumes "0 < low" "low < high" "v1 \<le> v2"
  shows "(log 10 (max low (min high v1)) - log 10 low) / (log 10 high - log 10 low)
       \<le> (log 10 (max low (min high v2)) - log 10 low) / (log 10 high - log 10 low)"
proof -
  have d: "0 < log 10 high - log 10 low" using assms by simp
  have "max low (min high v1) \<le> max low (min high v2)" using assms by auto
  moreover have "0 < max low (min high v1)" using assms by auto
  ultimately have "log 10 (max low (min high v1)) \<le> log 10 (max low (min high v2))"
    by simp
  then show ?thesis using d by (simp add: divide_right_mono)
qed

lemma floor_unit:
  fixes r :: real
  assumes "0 \<le> r" "r \<le> 1"
  shows "0 \<le> \<lfloor>(1 - r) * 15\<rfloor> \<and> \<lfloor>(1 - r) * 15\<rfloor> \<le> 15"
proof -
  have "0 \<le> (1 - r) * 15" "(1 - r) * 15 \<le> 15" using assms by auto
  then show ?thesis by (simp add: floor_le_iff le_floor_iff)
qed

lemma floor_anti:
  fixes r s :: real
  assumes "r \<le> s"
  shows "\<lfloor>(1 - s) * 15\<rfloor> \<le> \<lfloor>(1 - r) * 15\<rfloor>"
proof -
  have "(1 - s) * 15 \<le> (1 - r) * 15" using assms by simp
  then show ?thesis by (rule floor_mono)
qed

lemma frequencyIndex_eq:
  assumes "0 < low" "low < high"
  shows "frequencyIndex v low high =
    Some \<lfloor>(1 - (log 10 (max low (min high v)) - log 10 low) / (log 10 high - log 10 low)) * 15\<rfloor>"
  using assms by (simp add: frequencyIndex_def length_DRUM_FREQUENCIES Let_def)

lemma index_bounds:
  assumes "0 < low" "low < high" "frequencyIndex v low high = Some i"
  shows "0 \<le> i \<and> i \<le> 15"
proof -
  let ?r = "(log 10 (max low (min high v)) - log 10 low) / (log 10 high - log 10 low)"
  have i: "i = \<lfloor>(1 - ?r) * 15\<rfloor>" using assms frequencyIndex_eq[of low high v] by simp
  have "0 \<le> \<lfloor>(1 - ?r) * 15\<rfloor> \<and> \<lfloor>(1 - ?r) * 15\<rfloor> \<le> 15"
    using ratio_bounds[OF assms(1,2), of v] by (rule floor_unit)
  then show ?thesis using i by simp
qed

lemma index_antimono:
  assumes "0 < low" "low < high" "v1 \<le> v2"
    "frequencyIndex v1 low high = Some i1" "frequencyIndex v2 low high = Some i2"
  shows "i2 \<le> i1"
proof -
  let ?r = "\<lambda>v. (log 10 (max low (min high v)) - log 10 low) / (log 10 high - log 10 low)"
  have "\<lfloor>(1 - ?r v2) * 15\<rfloor> \<le> \<lfloor>(1 - ?r v1) * 15\<rfloor>"
    using ratio_mono[OF assms(1,2,3)] by (rule floor_anti)
  then show ?thesis using assms frequencyIndex_eq[of low high] by simp
qed

lemma frequency_at_index:
  assumes "frequencyIndex v low high = Some i" "0 \<le> i \<and> i \<le> 15"
  shows "getFrequencyFromValue v low high = Some (DRUM_FREQUENCIES ! nat i)"
  using assms by (simp add: getFrequencyFromValue_def jsIndex_def length_DRUM_FREQUENCIES)

lemma frequency_defined:
  assumes "0 < low" "low < high"
  shows "\<exists>f. getFrequencyFromValue v low high = Some f"
proof -
  obtain i where i: "frequencyIndex v low high = Some i"
    using frequencyIndex_eq[OF assms] by blast
  show ?thesis using frequency_at_index[OF i index_bounds[OF assms i]] by blast
qed

lemma log10_tenth: "log 10 (1 / 10) = - 1"
proof -
  have "log 10 (1 / 10) = log 10 1 - log 10 10" by (simp add: log_divide)
  then show ?thesis by simp
qed

lemma frequencyIndex_low_end: "frequencyIndex (1 / 10) (1 / 10) 1 = Some 15"
  by (simp add: frequencyIndex_def length_DRUM_FREQUENCIES)

lemma frequencyIndex_high_end: "frequencyIndex 1 (1 / 10) 1 = Some 0"
  by (simp add: frequencyIndex_def length_DRUM_FREQUENCIES log10_tenth)

text \<open>
  C2, as the specification states it, is false: in the tier with the bounds 0.1 and 1, the
  value 0.1 is given the pitch 880 and the larger value 1 the lower pitch 196.
\<close>

theorem getFrequencyFromValue_not_increasing:
  "getFrequencyFromValue (1 / 10) (1 / 10) 1 = Some 880
   \<and> getFrequencyFromValue 1 (1 / 10) 1 = Some 196
   \<and> \<not> the (getFrequencyFromValue (1 / 10) (1 / 10) 1) \<le> the (getFrequencyFromValue 1 (1 / 10) 1)"
  by (simp add: getFrequencyFromValue_def frequencyIndex_low_end frequencyIndex_high_end
      jsIndex_def DRUM_FREQUENCIES_def)

text \<open>
  C2, amended: for every tier with bounds \<open>0 < low < high\<close> and all values
  \<open>v1 \<le> v2\<close> in \<open>[low, high]\<close>, both pitches are defined and the pitch chosen for \<open>v2\<close> is
  lower than or equal to the pitch chosen for \<open>v1\<close>: the pitch is monotonically
  non-increasing in the value.
\<close>

theorem getFrequencyFromValue_antimono:
  assumes "0 < low" "low < high" "low \<le> v1" "v1 \<le> v2" "v2 \<le> high"
  shows "\<exists>f1 f2. getFrequencyFromValue v1 low high = Some f1
           \<and> getFrequencyFromValue v2 low high = Some f2 \<and> f2 \<le> f1"
proof -
  obtain i1 where i1: "frequencyIndex v1 low high = Some i1"
    using frequencyIndex_eq[OF assms(1,2)] by blast
  obtain i2 where i2: "frequencyIndex v2 low high = Some i2"
    using frequencyIndex_eq[OF assms(1,2)] by blast
  have b1: "0 \<le> i1 \<and> i1 \<le> 15" using index_bounds[OF assms(1,2) i1] .
  have b2: "0 \<le> i2 \<and> i2 \<le> 15" using index_bounds[OF assms(1,2) i2] .
  have le: "i2 \<le> i1" using index_antimono[OF assms(1,2,4) i1 i2] .
  have "nat i2 \<le> nat i1" "nat i1 < length DRUM_FREQUENCIES"
    using le b1 by (auto simp add: length_DRUM_FREQUENCIES)
  then have "DRUM_FREQUENCIES ! nat i2 \<le> DRUM_FREQUENCIES ! nat i1"
    using sorted_DRUM_FREQUENCIES by (simp add: sorted_nth_mono)
  then show ?thesis
    using frequency_at_index[OF i1 b1] frequency_at_index[OF i2 b2] by blast
qed

theorem getFrequencyFromValue_antimono_witness:
  "(0::real) < 1 / 10 \<and> (1 / 10 :: real) < 1 \<and> (1 / 10 :: real) \<le> 1 / 10 \<and> (1 / 10 :: real) \<le> 1
   \<and> (\<exists>f1 f2. getFrequencyFromValue (1 / 10) (1 / 10) 1 = Some f1
           \<and> getFrequencyFromValue 1 (1 / 10) 1 = Some f2 \<and> f2 \<le> f1)"
  using getFrequencyFromValue_antimono[of "1 / 10" 1 "1 / 10" 1] by simp

subsection \<open>The logarithm as a double\<close>

lemma frequencyIndexWith_exact: "frequencyIndexWith (log 10) v low high = frequencyIndex v low high"
proof (cases "low \<le> 0 \<or> high < 0")
  case True
  then show ?thesis by (auto simp add: frequencyIndexWith_def frequencyIndex_def)
next
  case False
  show ?thesis
  proof (cases "high = 0")
    case True
    then have "low \<noteq> high" using False by auto
    then show ?thesis using False True
      by (simp add: frequencyIndexWith_def frequencyIndex_def Let_def)
  next
    case nz: False
    then have pos: "0 < low" "0 < high" using False by auto
    show ?thesis
    proof (cases "low = high")
      case True
      then show ?thesis using False nz
        by (simp add: frequencyIndexWith_def frequencyIndex_def Let_def)
    next
      case ne: False
      have "log 10 high \<noteq> log 10 low"
      proof (cases "low < high")
        case True
        then have "log 10 low < log 10 high" using pos by simp
        then show ?thesis by simp
      next
        case False
        then have "high < low" using ne by simp
        then have "log 10 high < log 10 low" using pos by simp
        then show ?thesis by simp
      qed
      then show ?thesis using False nz ne
        by (simp add: frequencyIndexWith_def frequencyIndex_def Let_def)
    qed
  qed
qed

lemma roundDouble_near_two:
  assumes "2 \<le> y" "y < 2 + 1 / 2 ^ 52"
  shows "roundDouble y = 2"
proof -
  have y4: "y < 4"
  proof -
    have "(1::real) / 2 ^ 52 \<le> 1" by simp
    then show ?thesis using assms(2) by linarith
  qed
  have "1 \<le> log 2 y" using assms(1) by (simp add: le_log_iff)
  moreover have "log 2 y < 2" using assms(1) y4 by (simp add: log_less_iff)
  ultimately have e: "\<lfloor>log 2 \<bar>y\<bar>\<rfloor> = 1" using assms(1) by (simp add: floor_unique)
  have p: "(2::real) powi 51 = 2 ^ 51" by (simp add: power_int_def)
  have m: "(2::real) powi (- 51) = 1 / 2 ^ 51" by (simp add: power_int_def field_simps)
  have lo: "2 ^ 52 \<le> y * 2 ^ 51" using assms(1) by simp
  have "y * 2 ^ 51 < (2 + 1 / 2 ^ 52) * 2 ^ 51" using assms(2) by simp
  also have "\<dots> = 2 ^ 52 + 1 / 2" by simp
  finally have hi: "y * 2 ^ 51 < 2 ^ 52 + 1 / 2" .
  have r: "round (y * 2 ^ 51) = 2 ^ 52"
    using lo hi by (intro round_unique) simp_all
  have "y \<noteq> 0" using assms(1) by simp
  then show ?thesis using r by (simp add: roundDouble_def e p m)
qed

lemma ln10_ge_1: "1 \<le> ln (10::real)"
proof -
  have "exp (1::real) \<le> 3" using exp_le by simp
  then have "exp (1::real) \<le> 10" by simp
  then show ?thesis by (simp add: ln_ge_iff)
qed

lemma log10_mult: "0 < x \<Longrightarrow> 0 < y \<Longrightarrow> log 10 (x * y) = log 10 x + log 10 y"
  by (simp add: log_mult)

lemma log10_100: "log 10 100 = (2::real)"
  using log10_mult[of 10 10] by simp

lemma log10_above_100:
  "2 \<le> log 10 (100 + 1 / 2 ^ 46)" "log 10 (100 + 1 / 2 ^ 46) < 2 + 1 / 2 ^ 52"
proof -
  define t :: real where "t = 1 / (100 * 2 ^ 46)"
  have t: "0 < t" by (simp add: t_def)
  have small: "t < 1 / 2 ^ 52" by (simp add: t_def)
  have eq: "(100::real) + 1 / 2 ^ 46 = 100 * (1 + t)" by (simp add: t_def field_simps)
  have "log 10 (100 * (1 + t)) = log 10 100 + log 10 (1 + t)"
    using t by (intro log10_mult) simp_all
  then have l: "log 10 (100 + 1 / 2 ^ 46) = 2 + log 10 (1 + t)" by (simp only: eq log10_100)
  have a: "ln (1 + t) \<le> t" using t by (intro ln_add_one_self_le_self) simp
  have b: "0 \<le> ln (1 + t)" using t by simp
  have "ln (1 + t) / ln 10 \<le> ln (1 + t) / 1"
    using b ln10_ge_1 by (intro divide_left_mono) simp_all
  then have u: "log 10 (1 + t) \<le> t" using a by (simp add: log_def)
  show "log 10 (100 + 1 / 2 ^ 46) < 2 + 1 / 2 ^ 52" using l u small by linarith
  have "0 \<le> log 10 (1 + t)" using t by simp
  then show "2 \<le> log 10 (100 + 1 / 2 ^ 46)" using l by linarith
qed

lemma Math_log10_100: "Math_log10 100 = 2"
  by (simp add: Math_log10_def log10_100 roundDouble_near_two)

lemma Math_log10_above_100: "Math_log10 (100 + 1 / 2 ^ 46) = 2"
  unfolding Math_log10_def using log10_above_100 by (rule roundDouble_near_two)


lemma exponent_bounds:
  assumes "0 < a"
  shows "2 powi \<lfloor>log 2 a\<rfloor> \<le> a" "a < 2 powi (\<lfloor>log 2 a\<rfloor> + 1)"
proof -
  have p: "(2::real) powi k = 2 powr (real_of_int k)" for k
    by (simp add: powr_real_of_int')
  have "real_of_int \<lfloor>log 2 a\<rfloor> \<le> log 2 a" by simp
  then have "2 powr (real_of_int \<lfloor>log 2 a\<rfloor>) \<le> 2 powr (log 2 a)" by simp
  then show "2 powi \<lfloor>log 2 a\<rfloor> \<le> a" using assms by (simp add: p)
  have "log 2 a < real_of_int (\<lfloor>log 2 a\<rfloor> + 1)" by linarith
  then have "2 powr (log 2 a) < 2 powr (real_of_int (\<lfloor>log 2 a\<rfloor> + 1))" by simp
  then show "a < 2 powi (\<lfloor>log 2 a\<rfloor> + 1)" using assms by (simp only: p) simp
qed

lemma pw_add: "(2::real) powi a * 2 powi b = 2 powi (a + b)"
  by (simp add: power_int_add)

lemma pw_shift: "(2::real) powi a * 2 powi (e - b) = 2 powi (e + (a - b))"
  using pw_add[of a "e - b"] by (simp add: algebra_simps)

lemma scale_pos: "0 < (2::real) powi k"
  by simp

lemma roundDouble_pos_bounds:
  assumes "0 < x"
  shows "2 powi \<lfloor>log 2 x\<rfloor> \<le> roundDouble x" "roundDouble x \<le> 2 powi (\<lfloor>log 2 x\<rfloor> + 1)"
proof -
  let ?e = "\<lfloor>log 2 x\<rfloor>"
  have rd: "roundDouble x = real_of_int (round (x * 2 powi (52 - ?e))) * 2 powi (?e - 52)"
    using assms by (simp add: roundDouble_def Let_def)
  have a: "2 powi ?e * 2 powi (52 - ?e) = (2::real) powi 52"
    by (simp flip: power_int_add)
  have b: "2 powi (?e + 1) * 2 powi (52 - ?e) = (2::real) powi 53"
    by (simp flip: power_int_add)
  have "2 powi ?e * 2 powi (52 - ?e) \<le> x * 2 powi (52 - ?e)"
    using exponent_bounds(1)[OF assms] by (intro mult_right_mono) simp_all
  then have lo: "(2::real) powi 52 \<le> x * 2 powi (52 - ?e)" by (simp only: a)
  have "x * 2 powi (52 - ?e) \<le> 2 powi (?e + 1) * 2 powi (52 - ?e)"
    using exponent_bounds(2)[OF assms] by (intro mult_right_mono) simp_all
  then have hi: "x * 2 powi (52 - ?e) \<le> (2::real) powi 53" by (simp only: b)
  have i52: "(2::real) powi 52 = real_of_int (2 ^ 52)" by (simp add: power_int_def)
  have i53: "(2::real) powi 53 = real_of_int (2 ^ 53)" by (simp add: power_int_def)
  have "round (real_of_int (2 ^ 52)) \<le> round (x * 2 powi (52 - ?e))"
    using lo unfolding i52 by (rule round_mono)
  then have rlo: "(2::real) powi 52 \<le> real_of_int (round (x * 2 powi (52 - ?e)))"
    unfolding i52 by (simp only: round_of_int of_int_le_iff)
  have "round (x * 2 powi (52 - ?e)) \<le> round (real_of_int (2 ^ 53))"
    using hi unfolding i53 by (rule round_mono)
  then have rhi: "real_of_int (round (x * 2 powi (52 - ?e))) \<le> (2::real) powi 53"
    unfolding i53 by (simp only: round_of_int of_int_le_iff)
  have c: "(2::real) powi 52 * 2 powi (?e - 52) = 2 powi ?e"
    using pw_shift[of 52 ?e 52] by (simp only: diff_self add_0_right)
  have d: "(2::real) powi 53 * 2 powi (?e - 52) = 2 powi (?e + 1)"
    using pw_shift[of 53 ?e 52] by (simp only: arith_simps)
  have "2 powi 52 * 2 powi (?e - 52) \<le> real_of_int (round (x * 2 powi (52 - ?e))) * 2 powi (?e - 52)"
    using rlo by (intro mult_right_mono) simp_all
  then show "2 powi ?e \<le> roundDouble x" by (simp only: c rd)
  have "real_of_int (round (x * 2 powi (52 - ?e))) * 2 powi (?e - 52) \<le> 2 powi 53 * 2 powi (?e - 52)"
    using rhi by (intro mult_right_mono) simp_all
  then show "roundDouble x \<le> 2 powi (?e + 1)" by (simp only: d rd)
qed

lemma roundDouble_mono_pos:
  assumes "0 < x" "x \<le> y"
  shows "roundDouble x \<le> roundDouble y"
proof -
  let ?ex = "\<lfloor>log 2 x\<rfloor>" and ?ey = "\<lfloor>log 2 y\<rfloor>"
  have y: "0 < y" using assms by simp
  have "log 2 x \<le> log 2 y" using assms by simp
  then have le: "?ex \<le> ?ey" by (rule floor_mono)
  show ?thesis
  proof (cases "?ex = ?ey")
    case True
    have "x * 2 powi (52 - ?ey) \<le> y * 2 powi (52 - ?ey)"
      using assms(2) by (intro mult_right_mono) simp_all
    then have "round (x * 2 powi (52 - ?ey)) \<le> round (y * 2 powi (52 - ?ey))"
      by (rule round_mono)
    then have "real_of_int (round (x * 2 powi (52 - ?ey))) * 2 powi (?ey - 52)
        \<le> real_of_int (round (y * 2 powi (52 - ?ey))) * 2 powi (?ey - 52)"
      by (intro mult_right_mono) simp_all
    then show ?thesis using assms(1) y True by (simp add: roundDouble_def Let_def)
  next
    case False
    then have "?ex + 1 \<le> ?ey" using le by simp
    then have "(2::real) powi (?ex + 1) \<le> 2 powi ?ey" by (intro power_int_increasing) simp_all
    then show ?thesis
      using roundDouble_pos_bounds(2)[OF assms(1)] roundDouble_pos_bounds(1)[OF y] by linarith
  qed
qed


lemma roundDouble_neg_bounds:
  assumes "x < 0"
  shows "- (2 powi (\<lfloor>log 2 \<bar>x\<bar>\<rfloor> + 1)) \<le> roundDouble x" "roundDouble x \<le> - (2 powi \<lfloor>log 2 \<bar>x\<bar>\<rfloor>)"
proof -
  define e where "e = \<lfloor>log 2 \<bar>x\<bar>\<rfloor>"
  define a where "a = \<bar>x\<bar>"
  have ax: "0 < a" "x = - a" using assms by (simp_all add: a_def)
  have eb: "2 powi e \<le> a" "a < 2 powi (e + 1)"
    using exponent_bounds[OF ax(1)] by (simp_all add: e_def a_def)
  have rd: "roundDouble x = real_of_int (round (x * 2 powi (52 - e))) * 2 powi (e - 52)"
    using assms by (simp add: roundDouble_def Let_def e_def)
  have s52: "2 powi e * 2 powi (52 - e) = (2::real) powi 52"
    by (simp flip: power_int_add)
  have s53: "2 powi (e + 1) * 2 powi (52 - e) = (2::real) powi 53"
    by (simp flip: power_int_add)
  have "2 powi e * 2 powi (52 - e) \<le> a * 2 powi (52 - e)"
    using eb(1) by (intro mult_right_mono) simp_all
  then have "(2::real) powi 52 \<le> a * 2 powi (52 - e)" by (simp only: s52)
  then have hi: "x * 2 powi (52 - e) \<le> - ((2::real) powi 52)" by (simp add: ax(2))
  have "a * 2 powi (52 - e) \<le> 2 powi (e + 1) * 2 powi (52 - e)"
    using eb(2) by (intro mult_right_mono) simp_all
  then have "a * 2 powi (52 - e) \<le> (2::real) powi 53" by (simp only: s53)
  then have lo: "- ((2::real) powi 53) \<le> x * 2 powi (52 - e)" by (simp add: ax(2))
  have i52: "- ((2::real) powi 52) = real_of_int (- (2 ^ 52))" by (simp add: power_int_def)
  have i53: "- ((2::real) powi 53) = real_of_int (- (2 ^ 53))" by (simp add: power_int_def)
  have "round (real_of_int (- (2 ^ 53))) \<le> round (x * 2 powi (52 - e))"
    using lo unfolding i53 by (rule round_mono)
  then have rlo: "- ((2::real) powi 53) \<le> real_of_int (round (x * 2 powi (52 - e)))"
    unfolding i53 by (simp only: round_of_int of_int_le_iff)
  have "round (x * 2 powi (52 - e)) \<le> round (real_of_int (- (2 ^ 52)))"
    using hi unfolding i52 by (rule round_mono)
  then have rhi: "real_of_int (round (x * 2 powi (52 - e))) \<le> - ((2::real) powi 52)"
    unfolding i52 by (simp only: round_of_int of_int_le_iff)
  have c: "(2::real) powi 52 * 2 powi (e - 52) = 2 powi e"
    using pw_shift[of 52 e 52] by (simp only: diff_self add_0_right)
  have d: "(2::real) powi 53 * 2 powi (e - 52) = 2 powi (e + 1)"
    using pw_shift[of 53 e 52] by (simp only: arith_simps)
  have "- (2 powi 53) * 2 powi (e - 52) \<le> real_of_int (round (x * 2 powi (52 - e))) * 2 powi (e - 52)"
    using rlo by (intro mult_right_mono) simp_all
  then have "- (2 powi 53 * 2 powi (e - 52)) \<le> roundDouble x" by (simp only: rd mult_minus_left)
  then have "- (2 powi (e + 1)) \<le> roundDouble x" by (simp only: d)
  then show "- (2 powi (\<lfloor>log 2 \<bar>x\<bar>\<rfloor> + 1)) \<le> roundDouble x" by (simp only: e_def)
  have "real_of_int (round (x * 2 powi (52 - e))) * 2 powi (e - 52) \<le> - (2 powi 52) * 2 powi (e - 52)"
    using rhi by (intro mult_right_mono) simp_all
  then have "roundDouble x \<le> - (2 powi 52 * 2 powi (e - 52))" by (simp only: rd mult_minus_left)
  then have "roundDouble x \<le> - (2 powi e)" by (simp only: c)
  then show "roundDouble x \<le> - (2 powi \<lfloor>log 2 \<bar>x\<bar>\<rfloor>)" by (simp only: e_def)
qed

lemma roundDouble_mono_neg:
  assumes "x \<le> y" "y < 0"
  shows "roundDouble x \<le> roundDouble y"
proof -
  let ?ex = "\<lfloor>log 2 \<bar>x\<bar>\<rfloor>" and ?ey = "\<lfloor>log 2 \<bar>y\<bar>\<rfloor>"
  have x: "x < 0" using assms by simp
  have "0 < \<bar>y\<bar>" "\<bar>y\<bar> \<le> \<bar>x\<bar>" using assms by simp_all
  then have "log 2 \<bar>y\<bar> \<le> log 2 \<bar>x\<bar>" by simp
  then have le: "?ey \<le> ?ex" by (rule floor_mono)
  show ?thesis
  proof (cases "?ex = ?ey")
    case True
    have "x * 2 powi (52 - ?ey) \<le> y * 2 powi (52 - ?ey)"
      using assms(1) by (intro mult_right_mono) simp_all
    then have "round (x * 2 powi (52 - ?ey)) \<le> round (y * 2 powi (52 - ?ey))"
      by (rule round_mono)
    then have "real_of_int (round (x * 2 powi (52 - ?ey))) * 2 powi (?ey - 52)
        \<le> real_of_int (round (y * 2 powi (52 - ?ey))) * 2 powi (?ey - 52)"
      by (intro mult_right_mono) simp_all
    then show ?thesis using x assms(2) True by (simp add: roundDouble_def Let_def)
  next
    case False
    then have "?ey + 1 \<le> ?ex" using le by simp
    then have "(2::real) powi (?ey + 1) \<le> 2 powi ?ex" by (intro power_int_increasing) simp_all
    then show ?thesis
      using roundDouble_neg_bounds(2)[OF x] roundDouble_neg_bounds(1)[OF assms(2)] by linarith
  qed
qed

lemma roundDouble_sign:
  "0 < x \<Longrightarrow> 0 < roundDouble x" "x < 0 \<Longrightarrow> roundDouble x < 0" "roundDouble 0 = 0"
proof -
  have p: "0 < (2::real) powi k" for k by simp
  show "0 < x \<Longrightarrow> 0 < roundDouble x"
    using roundDouble_pos_bounds(1)[of x] p[of "\<lfloor>log 2 x\<rfloor>"] by linarith
  show "x < 0 \<Longrightarrow> roundDouble x < 0"
    using roundDouble_neg_bounds(2)[of x] p[of "\<lfloor>log 2 \<bar>x\<bar>\<rfloor>"] by linarith
  show "roundDouble 0 = 0" by (simp add: roundDouble_def)
qed

lemma roundDouble_mono:
  assumes "x \<le> y"
  shows "roundDouble x \<le> roundDouble y"
proof -
  consider (pos) "0 < x" | (neg) "y < 0" | (zx) "x = 0" "0 < y" | (zy) "x < 0" "y = 0"
    | (mixed) "x < 0" "0 < y" | (zz) "x = 0" "y = 0"
    using assms by linarith
  then show ?thesis
  proof cases
    case pos
    then show ?thesis using assms by (rule roundDouble_mono_pos)
  next
    case neg
    with assms show ?thesis by (rule roundDouble_mono_neg)
  next
    case zx
    then show ?thesis using roundDouble_sign(1)[of y] by (simp add: roundDouble_sign(3))
  next
    case zy
    then show ?thesis using roundDouble_sign(2)[of x] by (simp add: roundDouble_sign(3))
  next
    case mixed
    then show ?thesis using roundDouble_sign(1)[of y] roundDouble_sign(2)[of x] by linarith
  next
    case zz
    then show ?thesis by simp
  qed
qed

lemma Math_log10_mono: "0 < x \<Longrightarrow> x \<le> y \<Longrightarrow> Math_log10 x \<le> Math_log10 y"
  unfolding Math_log10_def by (intro roundDouble_mono) simp

lemma roundDouble_int_small:
  "roundDouble (- 1) = - 1" "roundDouble (- 2) = - 2" "roundDouble (- 5) = - 5"
proof -
  have e1: "\<lfloor>log 2 (1::real)\<rfloor> = 0" by simp
  have e2: "\<lfloor>log 2 (2::real)\<rfloor> = 1" by simp
  have "2 \<le> log 2 (5::real)" by (simp add: le_log_iff)
  moreover have "log 2 (5::real) < 3" by (simp add: log_less_iff)
  ultimately have e5: "\<lfloor>log 2 (5::real)\<rfloor> = 2" by (simp add: floor_unique)
  show "roundDouble (- 1) = - 1" by (simp add: roundDouble_def e1 power_int_def power_one_over)
  show "roundDouble (- 2) = - 2" by (simp add: roundDouble_def e2 power_int_def power_one_over)
  show "roundDouble (- 5) = - 5" by (simp add: roundDouble_def e5 power_int_def power_one_over)
qed

lemma Math_log10_tiers:
  "Math_log10 1 = 0" "Math_log10 (1 / 10) = - 1" "Math_log10 (1 / 100) = - 2"
  "Math_log10 (1 / 100000) = - 5"
proof -
  have l1: "log 10 (1 / 10) = - 1" by (simp add: log_divide)
  have "log 10 (1 / 100) = log 10 1 - log 10 100" by (simp add: log_divide)
  then have l2: "log 10 (1 / 100) = - 2" by (simp add: log10_100)
  have "log 10 ((10::real) ^ 5) = real 5 * log 10 10" by (rule log_nat_power) simp
  then have l5: "log 10 100000 = (5::real)" by simp
  have "log 10 (1 / 100000) = log 10 1 - log 10 100000" by (simp add: log_divide)
  then have l3: "log 10 (1 / 100000) = - 5" by (simp add: l5)
  show "Math_log10 1 = 0" by (simp add: Math_log10_def roundDouble_sign(3))
  show "Math_log10 (1 / 10) = - 1" by (simp only: Math_log10_def l1 roundDouble_int_small)
  show "Math_log10 (1 / 100) = - 2" by (simp only: Math_log10_def l2 roundDouble_int_small)
  show "Math_log10 (1 / 100000) = - 5" by (simp only: Math_log10_def l3 roundDouble_int_small)
qed

lemma frequencyIndexWith_bounds:
  assumes "0 < low" "low < high" and mono: "\<forall>x y. 0 < x \<and> x \<le> y \<longrightarrow> lg x \<le> lg y"
    and sep: "lg low \<noteq> lg high"
  shows "\<exists>i. frequencyIndexWith lg v low high = Some i \<and> 0 \<le> i \<and> i \<le> 15"
proof -
  let ?c = "max low (min high v)"
  have c: "low \<le> ?c" "?c \<le> high" "0 < ?c" using assms(1,2) by auto
  have a: "lg low \<le> lg ?c" using mono assms(1) c(1) by blast
  have b: "lg ?c \<le> lg high" using mono c(2,3) by blast
  have "lg low \<le> lg high" using a b by linarith
  then have d: "0 < lg high - lg low" using sep by linarith
  have r0: "0 \<le> (lg ?c - lg low) / (lg high - lg low)" using a d by simp
  have r1: "(lg ?c - lg low) / (lg high - lg low) \<le> 1" using b d by simp
  have "frequencyIndexWith lg v low high =
      Some \<lfloor>(1 - (lg ?c - lg low) / (lg high - lg low)) * 15\<rfloor>"
    using assms(1,2) sep by (simp add: frequencyIndexWith_def length_DRUM_FREQUENCIES Let_def)
  then show ?thesis using floor_unit[OF r0 r1] by simp
qed

lemma frequencyIndexWith_coinciding:
  assumes "0 < low" "0 < high" "lg high = lg low"
  shows "frequencyIndexWith lg v low high = None" "getFrequencyFromValueWith lg v low high = None"
  using assms by (simp_all add: getFrequencyFromValueWith_def frequencyIndexWith_def Let_def)

text \<open>
  C10, as the specification states it, is false: 100 and the next double above it,
  \<open>100 + 2 ^ -46\<close>, are bounds \<open>0 < low < high\<close> whose \<open>Math.log10\<close> are both 2, and with
  them \<open>getFrequencyFromValue\<close> computes no index and returns \<open>undefined\<close>.
\<close>

theorem getFrequencyFromValue_coinciding_logs:
  "(0::real) < 100 \<and> (100::real) < 100 + 1 / 2 ^ 46
   \<and> Math_log10 100 = 2 \<and> Math_log10 (100 + 1 / 2 ^ 46) = 2
   \<and> frequencyIndexWith Math_log10 50 100 (100 + 1 / 2 ^ 46) = None
   \<and> getFrequencyFromValueWith Math_log10 50 100 (100 + 1 / 2 ^ 46) = None"
proof -
  have p: "(0::real) < 100" "(0::real) < 100 + 1 / 2 ^ 46" "(100::real) < 100 + 1 / 2 ^ 46"
    by simp_all
  have e: "Math_log10 (100 + 1 / 2 ^ 46) = Math_log10 100"
    by (simp only: Math_log10_100 Math_log10_above_100)
  show ?thesis
    using p(1,3) Math_log10_100 Math_log10_above_100
      frequencyIndexWith_coinciding[OF p(1,2) e, of 50]
    by blast
qed

text \<open>
  C10, amended: for all bounds \<open>0 < low < high\<close> whose \<open>Math.log10\<close> differ (\<open>Math.log10\<close>
  being non-decreasing on the positive numbers), as for the three tiers of
  \<open>playTransaction\<close>, and for every real value \<open>v\<close> (zero, negative and far outside the
  bounds included), the index that \<open>getFrequencyFromValue\<close> computes lies in \<open>[0, 15]\<close> and
  the function returns the element of the sixteen-entry scale at that index: the read is
  never outside the array.
\<close>

theorem getFrequencyFromValue_in_bounds:
  assumes "0 < low" and "low < high"
    and "\<forall>x y. 0 < x \<and> x \<le> y \<longrightarrow> lg x \<le> lg y" and "lg low \<noteq> lg high"
  shows "\<exists>i. frequencyIndexWith lg v low high = Some i \<and> 0 \<le> i \<and> i \<le> 15
           \<and> nat i < length DRUM_FREQUENCIES
           \<and> getFrequencyFromValueWith lg v low high = Some (DRUM_FREQUENCIES ! nat i)"
proof -
  obtain i where i: "frequencyIndexWith lg v low high = Some i" "0 \<le> i" "i \<le> 15"
    using frequencyIndexWith_bounds[OF assms] by blast
  then have n: "nat i < length DRUM_FREQUENCIES" by (auto simp add: length_DRUM_FREQUENCIES)
  have "getFrequencyFromValueWith lg v low high = Some (DRUM_FREQUENCIES ! nat i)"
    using i by (simp add: getFrequencyFromValueWith_def jsIndex_def length_DRUM_FREQUENCIES)
  then show ?thesis using i n by blast
qed

theorem getFrequencyFromValue_in_bounds_witness:
  "(\<exists>i. frequencyIndexWith Math_log10 (- 5) (1 / 10) 1 = Some i \<and> 0 \<le> i \<and> i \<le> 15
        \<and> nat i < length DRUM_FREQUENCIES
        \<and> getFrequencyFromValueWith Math_log10 (- 5) (1 / 10) 1 = Some (DRUM_FREQUENCIES ! nat i))
   \<and> (\<exists>i. frequencyIndexWith Math_log10 0 (1 / 100) (1 / 10) = Some i \<and> 0 \<le> i \<and> i \<le> 15
        \<and> nat i < length DRUM_FREQUENCIES
        \<and> getFrequencyFromValueWith Math_log10 0 (1 / 100) (1 / 10)
            = Some (DRUM_FREQUENCIES ! nat i))
   \<and> (\<exists>i. frequencyIndexWith Math_log10 7 (1 / 100000) (1 / 100) = Some i \<and> 0 \<le> i \<and> i \<le> 15
        \<and> nat i < length DRUM_FREQUENCIES
        \<and> getFrequencyFromValueWith Math_log10 7 (1 / 100000) (1 / 100)
            = Some (DRUM_FREQUENCIES ! nat i))"
proof -
  have m: "\<forall>x y. 0 < x \<and> x \<le> y \<longrightarrow> Math_log10 x \<le> Math_log10 y"
    using Math_log10_mono by blast
  have s1: "Math_log10 (1 / 10) \<noteq> Math_log10 1" unfolding Math_log10_tiers by simp
  have s2: "Math_log10 (1 / 100) \<noteq> Math_log10 (1 / 10)" unfolding Math_log10_tiers by simp
  have s3: "Math_log10 (1 / 100000) \<noteq> Math_log10 (1 / 100)" unfolding Math_log10_tiers by simp
  have p1: "(0::real) < 1 / 10" "(1 / 10 :: real) < 1" by simp_all
  have p2: "(0::real) < 1 / 100" "(1 / 100 :: real) < 1 / 10" by simp_all
  have p3: "(0::real) < 1 / 100000" "(1 / 100000 :: real) < 1 / 100" by simp_all
  show ?thesis
    using getFrequencyFromValue_in_bounds[OF p1 m s1, of "- 5"]
      getFrequencyFromValue_in_bounds[OF p2 m s2, of 0]
      getFrequencyFromValue_in_bounds[OF p3 m s3, of 7]
    by blast
qed


section \<open>Hue from fee rate\<close>

lemma hue_band1: "f \<le> 1 \<Longrightarrow> getHueFromFeeRate f = 210"
  by (simp add: getHueFromFeeRate_def)

lemma hue_band2: "1 < f \<Longrightarrow> f \<le> 50 \<Longrightarrow> getHueFromFeeRate f = 210 - 7 * f / 5"
  by (simp add: getHueFromFeeRate_def)

lemma hue_band3: "50 < f \<Longrightarrow> f \<le> 150 \<Longrightarrow> getHueFromFeeRate f = 140 - 19 * (f - 50) / 20"
  by (simp add: getHueFromFeeRate_def)

lemma hue_band4: "150 < f \<Longrightarrow> f \<le> 400 \<Longrightarrow> getHueFromFeeRate f = 45 - 9 * (f - 150) / 50"
  by (simp add: getHueFromFeeRate_def max_def)

lemma hue_band5: "400 \<le> f \<Longrightarrow> getHueFromFeeRate f = 0"
  by (simp add: getHueFromFeeRate_def max_def)

lemma hue_cases:
  "(f \<le> 1 \<and> getHueFromFeeRate f = 210)
   \<or> (1 < f \<and> f \<le> 50 \<and> getHueFromFeeRate f = 210 - 7 * f / 5)
   \<or> (50 < f \<and> f \<le> 150 \<and> getHueFromFeeRate f = 140 - 19 * (f - 50) / 20)
   \<or> (150 < f \<and> f \<le> 400 \<and> getHueFromFeeRate f = 45 - 9 * (f - 150) / 50)
   \<or> (400 < f \<and> getHueFromFeeRate f = 0)"
proof -
  consider (a) "f \<le> 1" | (b) "1 < f" "f \<le> 50" | (c) "50 < f" "f \<le> 150"
    | (d) "150 < f" "f \<le> 400" | (e) "400 < f"
    by linarith
  then show ?thesis
  proof cases
    case a
    then show ?thesis by (simp add: hue_band1)
  next
    case b
    then show ?thesis by (simp add: hue_band2)
  next
    case c
    then show ?thesis by (simp add: hue_band3)
  next
    case d
    then show ?thesis by (simp add: hue_band4)
  next
    case e
    then show ?thesis by (simp add: hue_band5)
  qed
qed

lemma hue_antimono: "f1 \<le> f2 \<Longrightarrow> getHueFromFeeRate f2 \<le> getHueFromFeeRate f1"
  using hue_cases[of f1] hue_cases[of f2] by argo

lemma hue_nonneg: "0 \<le> getHueFromFeeRate f"
  using hue_cases[of f] by argo

lemma hue_after_step: "1 < f \<Longrightarrow> getHueFromFeeRate f \<le> 2086 / 10"
  using hue_cases[of f] by argo

text \<open>Above 1 the function is the upper envelope of its three lines and of zero.\<close>

lemma hue_above_one:
  assumes "1 < f"
  shows "getHueFromFeeRate f =
    max (max (210 - (f / 50) * 70) (140 - ((f - 50) / 100) * 95))
        (max (45 - ((f - 150) / 250) * 45) 0)"
  using assms hue_cases[of f] by argo

lemma hue_isCont_above:
  assumes "1 < x"
  shows "isCont getHueFromFeeRate x"
proof -
  let ?g = "\<lambda>f::real. max (max (210 - (f / 50) * 70) (140 - ((f - 50) / 100) * 95))
        (max (45 - ((f - 150) / 250) * 45) 0)"
  have g: "isCont ?g x" by (intro continuous_intros) simp_all
  have "\<forall>\<^sub>F f in nhds x. getHueFromFeeRate f = ?g f"
    unfolding eventually_nhds
  proof (intro exI conjI ballI)
    show "open {(1::real)<..}" by simp
    show "x \<in> {(1::real)<..}" using assms by simp
    fix f :: real assume "f \<in> {(1::real)<..}"
    then show "getHueFromFeeRate f = ?g f" using hue_above_one by simp
  qed
  then have "isCont getHueFromFeeRate x \<longleftrightarrow> isCont ?g x" by (rule isCont_cong)
  then show ?thesis using g by simp
qed

lemma hue_isCont_below:
  assumes "x < 1"
  shows "isCont getHueFromFeeRate x"
proof -
  have g: "isCont (\<lambda>f::real. 210::real) x" by simp
  have "\<forall>\<^sub>F f in nhds x. getHueFromFeeRate f = 210"
    unfolding eventually_nhds
  proof (intro exI conjI ballI)
    show "open {..<(1::real)}" by simp
    show "x \<in> {..<(1::real)}" using assms by simp
    fix f :: real assume "f \<in> {..<(1::real)}"
    then show "getHueFromFeeRate f = 210" using hue_band1 by simp
  qed
  then have "isCont getHueFromFeeRate x \<longleftrightarrow> isCont (\<lambda>f::real. 210::real) x"
    by (rule isCont_cong)
  then show ?thesis using g by simp
qed

text \<open>Away from the fee rate 1 the mapping is as the specification describes it.\<close>

lemma hue_away_from_one:
  "(\<forall>f1 f2. f1 \<le> f2 \<longrightarrow> getHueFromFeeRate f2 \<le> getHueFromFeeRate f1)
   \<and> (\<forall>x. x \<noteq> 1 \<longrightarrow> isCont getHueFromFeeRate x)
   \<and> (\<forall>f. 1 < f \<longrightarrow> getHueFromFeeRate f \<le> 2086 / 10)
   \<and> getHueFromFeeRate 1 = 210 \<and> getHueFromFeeRate 50 = 140 \<and> getHueFromFeeRate 150 = 45
   \<and> (\<forall>f. 400 \<le> f \<longrightarrow> getHueFromFeeRate f = 0)
   \<and> (\<forall>f. 0 \<le> getHueFromFeeRate f)"
proof -
  have "isCont getHueFromFeeRate x" if "x \<noteq> 1" for x
  proof (cases "x < 1")
    case True
    then show ?thesis by (rule hue_isCont_below)
  next
    case False
    then have "1 < x" using that by simp
    then show ?thesis by (rule hue_isCont_above)
  qed
  moreover have "getHueFromFeeRate 1 = 210" "getHueFromFeeRate 50 = 140"
    "getHueFromFeeRate 150 = 45"
    by (simp_all add: getHueFromFeeRate_def)
  ultimately show ?thesis
    using hue_antimono hue_after_step hue_band5 hue_nonneg by blast
qed

lemma hue_not_continuous_at_one: "\<not> isCont getHueFromFeeRate 1"
proof
  assume "isCont getHueFromFeeRate 1"
  then have "getHueFromFeeRate \<midarrow>1\<rightarrow> getHueFromFeeRate 1" by (simp add: isCont_def)
  then have "\<forall>r>0. \<exists>s>0. \<forall>x. x \<noteq> 1 \<and> norm (x - 1) < s
      \<longrightarrow> norm (getHueFromFeeRate x - getHueFromFeeRate 1) < r"
    by (simp add: LIM_eq)
  then obtain s where s: "0 < s"
    "\<forall>x. x \<noteq> 1 \<and> norm (x - 1) < s \<longrightarrow> norm (getHueFromFeeRate x - getHueFromFeeRate 1) < 1"
    by (metis zero_less_one)
  define x where "x = 1 + min (s / 2) 1"
  have x: "1 < x" "norm (x - 1) < s" using s(1) by (auto simp add: x_def min_def)
  then have "norm (getHueFromFeeRate x - getHueFromFeeRate 1) < 1" using s(2) by simp
  moreover have "getHueFromFeeRate x \<le> 2086 / 10" using x(1) by (rule hue_after_step)
  moreover have "getHueFromFeeRate 1 = 210" by (simp add: hue_band1)
  ultimately show False by simp
qed

text \<open>
  C3: the specification asks for a mapping that is continuous across all four bands, linear
  from 210 to 140 on \<open>(1, 50]\<close>. The second band of the code is \<open>210 - (feeRate / 50) * 70\<close>:
  unlike the third and the fourth band, it neither subtracts the start of its band nor
  divides by its width. So the code returns 210 at the fee rate 1 and 208.586 at the fee
  rate 1.01, and is not continuous at 1.
\<close>

theorem getHueFromFeeRate_step_at_one:
  "getHueFromFeeRate 1 = 210 \<and> getHueFromFeeRate (101 / 100) = 208586 / 1000
   \<and> \<not> isCont getHueFromFeeRate 1"
  using hue_not_continuous_at_one by (simp add: getHueFromFeeRate_def)


section \<open>Radius from value\<close>

lemma addTransaction_last:
  assumes "canvas viz = Some cv"
  shows "b_radius (last (bubbles (addTransaction rnd tid v fr viz))) =
    (if v / 100000000 * 30000 < 0 then NaN
     else Num (max 20 (min 180 (sqrt (v / 100000000 * 30000) + 30))))"
  using assms by (simp add: addTransaction_def Let_def)

lemma addTransaction_pushes:
  assumes "canvas viz = Some cv"
  shows "length (bubbles (addTransaction rnd tid v fr viz)) = Suc (length (bubbles viz))"
  using assms by (simp add: addTransaction_def Let_def)

lemma radius_nonneg_value:
  assumes "canvas viz = Some cv" "0 \<le> v"
  shows "b_radius (last (bubbles (addTransaction rnd tid v fr viz))) =
    Num (max 20 (min 180 (sqrt (v / 100000000 * 30000) + 30)))"
  using assms by (simp add: addTransaction_last)

lemma sqrt_22500: "sqrt 22500 = 150"
proof -
  have "sqrt ((150::real)\<^sup>2) = 150" by (rule real_sqrt_unique) simp_all
  then show ?thesis by simp
qed

lemma clamp_mono:
  fixes a b :: real
  assumes "a \<le> b"
  shows "max 20 (min 180 (a + 30)) \<le> max 20 (min 180 (b + 30))"
  using assms by (simp add: max_def min_def)

lemma clamp_low:
  fixes a :: real
  assumes "0 \<le> a"
  shows "30 \<le> max 20 (min 180 (a + 30))"
  using assms by (simp add: max_def min_def)

lemma clamp_high:
  fixes a :: real
  assumes "150 \<le> a"
  shows "max 20 (min 180 (a + 30)) = 180"
  using assms by (simp add: max_def min_def)

lemma clamp_radius_mono:
  assumes "0 \<le> v1" "v1 \<le> v2"
  shows "max 20 (min 180 (sqrt (v1 / 100000000 * 30000) + 30))
       \<le> max (20::real) (min 180 (sqrt (v2 / 100000000 * 30000) + 30))"
proof -
  have "v1 / 100000000 * 30000 \<le> v2 / 100000000 * 30000" using assms by simp
  then have "sqrt (v1 / 100000000 * 30000) \<le> sqrt (v2 / 100000000 * 30000)"
    by (rule real_sqrt_le_mono)
  then show ?thesis by (rule clamp_mono)
qed

lemma clamp_radius_low:
  assumes "0 \<le> v"
  shows "30 \<le> max (20::real) (min 180 (sqrt (v / 100000000 * 30000) + 30))"
proof -
  have "0 \<le> sqrt (v / 100000000 * 30000)" using assms by simp
  then show ?thesis by (rule clamp_low)
qed

lemma clamp_radius_high:
  assumes "75000000 \<le> v"
  shows "max (20::real) (min 180 (sqrt (v / 100000000 * 30000) + 30)) = 180"
proof -
  have "22500 \<le> v / 100000000 * 30000" using assms by simp
  then have "sqrt 22500 \<le> sqrt (v / 100000000 * 30000)" by (rule real_sqrt_le_mono)
  then have "150 \<le> sqrt (v / 100000000 * 30000)" by (simp only: sqrt_22500)
  then show ?thesis by (rule clamp_high)
qed

text \<open>
  C4, as the specification states it, is false: the particle spawned for the value 0 has
  the radius 30; it is not clamped to 20.
\<close>

theorem addTransaction_radius_at_zero:
  "b_radius (last (bubbles (addTransaction
      \<lparr>r_id = ''0.5'', r_x = 1 / 2, r_vx = 1 / 2, r_vy = 1 / 2, r_pulse = 1 / 2,
       r_noise = (\<lambda>i. 1 / 2)\<rparr>
      (Some ''a'') 0 (Num 1)
      \<lparr>canvas = Some \<lparr>width = 800, height = 600\<rparr>, bubbles = [], avgFeeRate = Num 1,
       time = 0, flashAlpha = 0\<rparr>))) = Num 30
   \<and> Num 30 \<noteq> Num 20"
  by (simp add: addTransaction_def Let_def)

text \<open>
  C4, amended: for every transaction value \<open>v \<ge> 0\<close> in satoshis, the particle spawned by
  \<open>addTransaction\<close> (on an existing canvas) has
  \<open>radius = clamp(sqrt((v / 1e8) * 30000) + 30, 20, 180)\<close>; the mapping is monotonic
  non-decreasing in \<open>v\<close> and lies in \<open>[30, 180]\<close>: the radius at \<open>v = 0\<close> is 30 (the lower
  clamp 20 is never reached), and the radius is 180 for every \<open>v \<ge> 75000000\<close>.
\<close>

theorem addTransaction_radius:
  assumes "canvas viz = Some cv" "0 \<le> v"
  shows "\<exists>r. b_radius (last (bubbles (addTransaction rnd tid v fr viz))) = Num r
      \<and> r = max 20 (min 180 (sqrt ((v / 100000000) * 30000) + 30))
      \<and> 30 \<le> r \<and> r \<le> 180
      \<and> (v = 0 \<longrightarrow> r = 30)
      \<and> (75000000 \<le> v \<longrightarrow> r = 180)
      \<and> (\<forall>v' r'. v \<le> v'
            \<and> b_radius (last (bubbles (addTransaction rnd tid v' fr viz))) = Num r'
            \<longrightarrow> r \<le> r')"
proof -
  let ?r = "max 20 (min 180 (sqrt ((v / 100000000) * 30000) + 30))"
  have r: "b_radius (last (bubbles (addTransaction rnd tid v fr viz))) = Num ?r"
    using assms by (rule radius_nonneg_value)
  have lo: "30 \<le> ?r" using assms(2) by (rule clamp_radius_low)
  have hi: "?r \<le> 180" by simp
  have zero: "v = 0 \<longrightarrow> ?r = 30" by simp
  have sat: "75000000 \<le> v \<longrightarrow> ?r = 180" using clamp_radius_high by blast
  have mono: "?r \<le> r'"
    if "v \<le> v'" "b_radius (last (bubbles (addTransaction rnd tid v' fr viz))) = Num r'"
    for v' r'
  proof -
    have "0 \<le> v'" using assms(2) that(1) by simp
    then have "b_radius (last (bubbles (addTransaction rnd tid v' fr viz))) =
      Num (max 20 (min 180 (sqrt (v' / 100000000 * 30000) + 30)))"
      using assms(1) by (simp add: radius_nonneg_value)
    then have "r' = max 20 (min 180 (sqrt (v' / 100000000 * 30000) + 30))"
      using that(2) by simp
    then show ?thesis using clamp_radius_mono[OF assms(2) that(1)] by simp
  qed
  show ?thesis using r lo hi zero sat mono by blast
qed

theorem addTransaction_radius_witness:
  "canvas \<lparr>canvas = Some \<lparr>width = 800, height = 600\<rparr>, bubbles = [], avgFeeRate = Num 1,
       time = 0, flashAlpha = 0\<rparr> = Some \<lparr>width = 800, height = 600\<rparr>
   \<and> (0::real) \<le> 75000000
   \<and> b_radius (last (bubbles (addTransaction
      \<lparr>r_id = ''0.5'', r_x = 1 / 2, r_vx = 1 / 2, r_vy = 1 / 2, r_pulse = 1 / 2,
       r_noise = (\<lambda>i. 1 / 2)\<rparr>
      (Some ''a'') 75000000 (Num 1)
      \<lparr>canvas = Some \<lparr>width = 800, height = 600\<rparr>, bubbles = [], avgFeeRate = Num 1,
       time = 0, flashAlpha = 0\<rparr>))) = Num 180"
  using addTransaction_radius[of
      "\<lparr>canvas = Some \<lparr>width = 800, height = 600\<rparr>, bubbles = [], avgFeeRate = Num 1,
        time = 0, flashAlpha = 0\<rparr>"
      "\<lparr>width = 800, height = 600\<rparr>" 75000000
      "\<lparr>r_id = ''0.5'', r_x = 1 / 2, r_vx = 1 / 2, r_vy = 1 / 2, r_pulse = 1 / 2,
        r_noise = (\<lambda>i. 1 / 2)\<rparr>"
      "Some ''a''" "Num 1"]
  by auto

section \<open>Guards of the trigger methods\<close>

lemma playTransaction_no_context: "ctx e = None \<Longrightarrow> playTransaction e rnd n b = Inr e"
  by (simp add: playTransaction_def)

lemma playTransaction_not_running:
  "ctx e = Some c \<Longrightarrow> state c \<noteq> Running \<Longrightarrow> playTransaction e rnd n b = Inr e"
  by (simp add: playTransaction_def)

lemma playBlockConfirm_no_context: "ctx e = None \<Longrightarrow> playBlockConfirm e = Inr e"
  by (simp add: playBlockConfirm_def)

lemma playBlockConfirm_no_gain: "masterGain e = None \<Longrightarrow> playBlockConfirm e = Inr e"
  by (simp add: playBlockConfirm_def split: option.splits)

lemma playBlockConfirm_returns: "\<exists>e'. playBlockConfirm e = Inr e'"
  by (simp add: playBlockConfirm_def playStartupChime_def split: option.splits)

lemma pitched_strikes_return:
  assumes "getFrequencyFromValue v low high = Some f"
  shows "\<exists>e'. createSteelDrumStrike (getFrequencyFromValue v low high) v e = Inr e'"
    and "\<exists>e'. createMarimbaStrike (getFrequencyFromValue v low high) v e = Inr e'"
    and "\<exists>e'. createUkulelePluck (getFrequencyFromValue v low high) v e = Inr e'"
  using assms
  by (simp_all add: createSteelDrumStrike_def createMarimbaStrike_def createUkulelePluck_def
      Let_def split: option.splits)

lemma playTransaction_returns: "\<exists>e'. playTransaction e rnd (Num v) b = Inr e'"
proof (cases "ctx e")
  case None
  then show ?thesis by (simp add: playTransaction_def)
next
  case (Some c)
  let ?btc = "v / 100000000"
  obtain f1 where f1: "getFrequencyFromValue ?btc 0.1 1.0 = Some f1"
    using frequency_defined[of "0.1" "1.0" ?btc] by auto
  obtain f2 where f2: "getFrequencyFromValue ?btc 0.01 0.1 = Some f2"
    using frequency_defined[of "0.01" "0.1" ?btc] by auto
  obtain f3 where f3: "getFrequencyFromValue ?btc 0.00001 0.01 = Some f3"
    using frequency_defined[of "0.00001" "0.01" ?btc] by auto
  show ?thesis
    using Some pitched_strikes_return(1)[OF f1] pitched_strikes_return(2)[OF f2]
      pitched_strikes_return(3)[OF f3]
    by (simp add: playTransaction_def Let_def)
qed

text \<open>
  C5, as the specification states it, is false: with a suspended context and the master
  gain in place, \<open>playBlockConfirm\<close> starts the four voices of the chime.
\<close>

theorem playBlockConfirm_on_suspended_context:
  "state \<lparr>state = Suspended, currentTime = 0, started = []\<rparr> \<noteq> Running
   \<and> playBlockConfirm
        \<lparr>ctx = Some \<lparr>state = Suspended, currentTime = 0, started = []\<rparr>,
         masterGain = Some (1 / 2), reverb = True, isShakerStarted = True\<rparr>
     = Inr \<lparr>ctx = Some \<lparr>state = Suspended, currentTime = 0, started = chimeVoices 0\<rparr>,
         masterGain = Some (1 / 2), reverb = True, isShakerStarted = True\<rparr>
   \<and> length (chimeVoices 0) = 4
   \<and> playBlockConfirm
        \<lparr>ctx = Some \<lparr>state = Suspended, currentTime = 0, started = []\<rparr>,
         masterGain = Some (1 / 2), reverb = True, isShakerStarted = True\<rparr>
     \<noteq> Inr \<lparr>ctx = Some \<lparr>state = Suspended, currentTime = 0, started = []\<rparr>,
         masterGain = Some (1 / 2), reverb = True, isShakerStarted = True\<rparr>"
  by (simp add: playBlockConfirm_def playStartupChime_def startVoices_def chimeVoices_def)

text \<open>
  C5, amended: \<open>playTransaction\<close>, for every value (NaN included) and every beat position,
  is a no-op whenever the audio context is absent or not in the running state: it starts
  no voice, returns without throwing and leaves the engine unchanged. \<open>playBlockConfirm\<close>
  is such a no-op whenever the audio context or the master gain is absent.
\<close>

theorem trigger_methods_guarded:
  "(ctx e = None \<or> (\<exists>c. ctx e = Some c \<and> state c \<noteq> Running)
      \<longrightarrow> playTransaction e rnd n b = Inr e)
   \<and> (ctx e = None \<or> masterGain e = None \<longrightarrow> playBlockConfirm e = Inr e)"
  using playTransaction_no_context playTransaction_not_running playBlockConfirm_no_context
    playBlockConfirm_no_gain
  by blast

theorem trigger_methods_guarded_witness:
  "state \<lparr>state = Suspended, currentTime = 0, started = []\<rparr> \<noteq> Running
   \<and> playTransaction
        \<lparr>ctx = Some \<lparr>state = Suspended, currentTime = 0, started = []\<rparr>,
         masterGain = Some (1 / 2), reverb = True, isShakerStarted = True\<rparr>
        (1 / 10) (Num 250000000) 4
     = Inr \<lparr>ctx = Some \<lparr>state = Suspended, currentTime = 0, started = []\<rparr>,
         masterGain = Some (1 / 2), reverb = True, isShakerStarted = True\<rparr>
   \<and> playTransaction
        \<lparr>ctx = Some \<lparr>state = Closed, currentTime = 0, started = []\<rparr>,
         masterGain = Some (1 / 2), reverb = True, isShakerStarted = True\<rparr>
        (1 / 10) NaN 4
     = Inr \<lparr>ctx = Some \<lparr>state = Closed, currentTime = 0, started = []\<rparr>,
         masterGain = Some (1 / 2), reverb = True, isShakerStarted = True\<rparr>
   \<and> playBlockConfirm
        \<lparr>ctx = None, masterGain = None, reverb = False, isShakerStarted = False\<rparr>
     = Inr \<lparr>ctx = None, masterGain = None, reverb = False, isShakerStarted = False\<rparr>"
  using trigger_methods_guarded[of
      "\<lparr>ctx = Some \<lparr>state = Suspended, currentTime = 0, started = []\<rparr>,
         masterGain = Some (1 / 2), reverb = True, isShakerStarted = True\<rparr>"
      "1 / 10" "Num 250000000" 4]
    trigger_methods_guarded[of
      "\<lparr>ctx = Some \<lparr>state = Closed, currentTime = 0, started = []\<rparr>,
         masterGain = Some (1 / 2), reverb = True, isShakerStarted = True\<rparr>"
      "1 / 10" NaN 4]
    trigger_methods_guarded[of
      "\<lparr>ctx = None, masterGain = None, reverb = False, isShakerStarted = False\<rparr>"]
  by simp


section \<open>Removal of particles\<close>

text \<open>The loop with its in-place removals is a map followed by a filter.\<close>

lemma bubbleLoop_eq:
  assumes "i \<le> length bs"
  shows "bubbleLoop t i bs =
    filter (\<lambda>b. \<not> expired b) (map (moveBubble t) (take i bs)) @ drop i bs"
  using assms
proof (induction i arbitrary: bs)
  case 0
  then show ?case by simp
next
  case (Suc i)
  let ?b = "moveBubble t (bs ! i)"
  let ?bs' = "bs[i := ?b]"
  have i: "i < length bs" using Suc.prems by simp
  have tk: "take (Suc i) bs = take i bs @ [bs ! i]"
    using i by (simp add: take_Suc_conv_app_nth)
  show ?case
  proof (cases "expired ?b")
    case True
    have len: "i \<le> length (splice1 i ?bs')" using i by (simp add: splice1_def)
    have "bubbleLoop t (Suc i) bs = bubbleLoop t i (splice1 i ?bs')"
      using True by (simp add: Let_def)
    also have "\<dots> = filter (\<lambda>b. \<not> expired b) (map (moveBubble t) (take i (splice1 i ?bs')))
        @ drop i (splice1 i ?bs')"
      using len by (rule Suc.IH)
    also have "take i (splice1 i ?bs') = take i bs" using i by (simp add: splice1_def)
    also have "drop i (splice1 i ?bs') = drop (Suc i) bs" using i by (simp add: splice1_def)
    finally show ?thesis using True by (simp add: tk)
  next
    case False
    have len: "i \<le> length ?bs'" using i by simp
    have "bubbleLoop t (Suc i) bs = bubbleLoop t i ?bs'"
      using False by (simp add: Let_def)
    also have "\<dots> = filter (\<lambda>b. \<not> expired b) (map (moveBubble t) (take i ?bs')) @ drop i ?bs'"
      using len by (rule Suc.IH)
    also have "take i ?bs' = take i bs" by simp
    also have "drop i ?bs' = ?b # drop (Suc i) bs"
      using i by (simp add: Cons_nth_drop_Suc[symmetric] upd_conv_take_nth_drop)
    finally show ?thesis using False by (simp add: tk)
  qed
qed

lemma render_bubbles:
  "bubbles (render viz) =
    filter (\<lambda>b. \<not> expired b) (map (moveBubble (time viz + 0.015)) (bubbles viz))"
  by (simp add: render_def Let_def bubbleLoop_eq)

lemma moveBubble_fields:
  "b_life (moveBubble t b) = b_life b - 0.0007"
  "b_y (moveBubble t b) = jsAdd (b_y b) (Num (b_vy b))"
  "b_radius (moveBubble t b) = b_radius b"
  by (simp_all add: moveBubble_def Let_def)

lemma expired_finite:
  "b_y b = Num y \<Longrightarrow> b_radius b = Num r \<Longrightarrow> expired b = (b_life b \<le> 0 \<or> y + r * 3 < 0)"
  by (simp add: expired_def)

text \<open>
  C8: on each update pass a particle is removed exactly when, after the life decay and the
  position integration of that frame, its life is at most 0 or its vertical position plus
  three radii is below zero; the list after the pass is the list of the updated particles
  that fail this test, in their order. Hence a particle with life 0 is removed on the next
  pass, a particle with \<open>y + 3 * radius < 0\<close> after the integration is removed even with
  life left, and every surviving particle has \<open>life > 0\<close> and \<open>y + 3 * radius \<ge> 0\<close>.
\<close>

theorem render_removes_expired:
  "bubbles (render viz) =
      filter (\<lambda>b. \<not> (b_life b \<le> 0 \<or> jsLess (jsAdd (b_y b) (jsScale 3 (b_radius b))) (Num 0)))
        (map (moveBubble (time viz + 0.015)) (bubbles viz))
   \<and> (\<forall>b \<in> set (bubbles viz). b_life b = 0
        \<longrightarrow> moveBubble (time viz + 0.015) b \<notin> set (bubbles (render viz)))
   \<and> (\<forall>b \<in> set (bubbles viz). \<forall>y r.
        b_y (moveBubble (time viz + 0.015) b) = Num y \<and> b_radius b = Num r \<and> y + 3 * r < 0
        \<longrightarrow> moveBubble (time viz + 0.015) b \<notin> set (bubbles (render viz)))
   \<and> (\<forall>b \<in> set (bubbles viz). \<forall>y r.
        b_y (moveBubble (time viz + 0.015) b) = Num y \<and> b_radius b = Num r
        \<and> 0 < b_life b - 0.0007 \<and> 0 \<le> y + 3 * r
        \<longrightarrow> moveBubble (time viz + 0.015) b \<in> set (bubbles (render viz)))
   \<and> (\<forall>b \<in> set (bubbles (render viz)).
        0 < b_life b \<and> (\<forall>y r. b_y b = Num y \<and> b_radius b = Num r \<longrightarrow> 0 \<le> y + 3 * r))"
proof -
  let ?t = "time viz + 0.015"
  have eq: "bubbles (render viz) = filter (\<lambda>b. \<not> expired b) (map (moveBubble ?t) (bubbles viz))"
    by (rule render_bubbles)
  have mem: "b' \<in> set (bubbles (render viz)) \<longleftrightarrow>
      b' \<in> moveBubble ?t ` set (bubbles viz) \<and> \<not> expired b'" for b'
    by (auto simp add: eq)
  have p1: "bubbles (render viz) =
      filter (\<lambda>b. \<not> (b_life b \<le> 0 \<or> jsLess (jsAdd (b_y b) (jsScale 3 (b_radius b))) (Num 0)))
        (map (moveBubble ?t) (bubbles viz))"
    using eq by (simp add: expired_def)
  have p2: "moveBubble ?t b \<notin> set (bubbles (render viz))" if "b_life b = 0" for b
  proof -
    have "expired (moveBubble ?t b)" using that by (simp add: expired_def moveBubble_fields)
    then show ?thesis by (simp add: mem)
  qed
  have p3: "moveBubble ?t b \<notin> set (bubbles (render viz))"
    if "b_y (moveBubble ?t b) = Num y" "b_radius b = Num r" "y + 3 * r < 0" for b y r
  proof -
    have "b_radius (moveBubble ?t b) = Num r" using that(2) by (simp add: moveBubble_fields)
    then have "expired (moveBubble ?t b)"
      using that(1,3) by (simp add: expired_finite mult.commute)
    then show ?thesis by (simp add: mem)
  qed
  have p4: "moveBubble ?t b \<in> set (bubbles (render viz))"
    if "b \<in> set (bubbles viz)" "b_y (moveBubble ?t b) = Num y" "b_radius b = Num r"
      "0 < b_life b - 0.0007" "0 \<le> y + 3 * r" for b y r
  proof -
    have "b_radius (moveBubble ?t b) = Num r" using that(3) by (simp add: moveBubble_fields)
    then have "\<not> expired (moveBubble ?t b)"
      using that(2,4,5) by (simp add: expired_finite mult.commute moveBubble_fields)
    then show ?thesis using that(1) by (simp add: mem)
  qed
  have p5: "0 < b_life b \<and> (\<forall>y r. b_y b = Num y \<and> b_radius b = Num r \<longrightarrow> 0 \<le> y + 3 * r)"
    if "b \<in> set (bubbles (render viz))" for b
  proof -
    have ne: "\<not> expired b" using that by (simp add: mem)
    then have "0 < b_life b" by (simp add: expired_def)
    moreover have "0 \<le> y + 3 * r" if "b_y b = Num y" "b_radius b = Num r" for y r
      using ne that by (simp add: expired_finite mult.commute)
    ultimately show ?thesis by blast
  qed
  show ?thesis using p1 p2 p3 p4 p5 by blast
qed

theorem render_removes_expired_witness:
  "let dead = \<lparr>b_id = ''a'', b_x = 100, b_y = Num 300, b_radius = Num 30, b_vx = 0, b_vy = - 1,
                b_baseHue = Num 210, b_alpha = 0, b_life = 0, b_value = 10000,
                b_feeRate = Num 1, b_noiseOffsets = [], b_isWhale = False, b_pulseOffset = 0\<rparr>;
       gone = \<lparr>b_id = ''b'', b_x = 100, b_y = Num (- 95), b_radius = Num 30, b_vx = 0, b_vy = - 1,
                b_baseHue = Num 210, b_alpha = 9 / 10, b_life = 1 / 2, b_value = 10000,
                b_feeRate = Num 1, b_noiseOffsets = [], b_isWhale = False, b_pulseOffset = 0\<rparr>;
       live = \<lparr>b_id = ''c'', b_x = 100, b_y = Num 300, b_radius = Num 30, b_vx = 0, b_vy = - 1,
                b_baseHue = Num 210, b_alpha = 9 / 10, b_life = 1, b_value = 10000,
                b_feeRate = Num 1, b_noiseOffsets = [], b_isWhale = False, b_pulseOffset = 0\<rparr>;
       viz = \<lparr>canvas = Some \<lparr>width = 800, height = 600\<rparr>, bubbles = [dead, gone, live],
              avgFeeRate = Num 1, time = 0, flashAlpha = 0\<rparr>
   in dead \<in> set (bubbles viz) \<and> b_life dead = 0
      \<and> moveBubble (time viz + 0.015) dead \<notin> set (bubbles (render viz))
      \<and> gone \<in> set (bubbles viz) \<and> 0 < b_life gone
      \<and> moveBubble (time viz + 0.015) gone \<notin> set (bubbles (render viz))
      \<and> live \<in> set (bubbles viz)
      \<and> moveBubble (time viz + 0.015) live \<in> set (bubbles (render viz))
      \<and> length (bubbles (render viz)) = 1"
  using render_removes_expired[of
      "\<lparr>canvas = Some \<lparr>width = 800, height = 600\<rparr>,
        bubbles =
         [\<lparr>b_id = ''a'', b_x = 100, b_y = Num 300, b_radius = Num 30, b_vx = 0, b_vy = - 1,
           b_baseHue = Num 210, b_alpha = 0, b_life = 0, b_value = 10000,
           b_feeRate = Num 1, b_noiseOffsets = [], b_isWhale = False, b_pulseOffset = 0\<rparr>,
          \<lparr>b_id = ''b'', b_x = 100, b_y = Num (- 95), b_radius = Num 30, b_vx = 0, b_vy = - 1,
           b_baseHue = Num 210, b_alpha = 9 / 10, b_life = 1 / 2, b_value = 10000,
           b_feeRate = Num 1, b_noiseOffsets = [], b_isWhale = False, b_pulseOffset = 0\<rparr>,
          \<lparr>b_id = ''c'', b_x = 100, b_y = Num 300, b_radius = Num 30, b_vx = 0, b_vy = - 1,
           b_baseHue = Num 210, b_alpha = 9 / 10, b_life = 1, b_value = 10000,
           b_feeRate = Num 1, b_noiseOffsets = [], b_isWhale = False, b_pulseOffset = 0\<rparr>],
        avgFeeRate = Num 1, time = 0, flashAlpha = 0\<rparr>"]
  by (simp add: Let_def moveBubble_def)

section \<open>The pending queue\<close>

lemma handleNewTransaction_queue_eq:
  "txQueue (handleNewTransaction tx app) =
      (if length (txQueue app) \<ge> 5000 then drop 500 (txQueue app) else txQueue app)
      @ [tx\<lparr>tx_val := Some (orElse (tx_val tx)
                   (case tx_vsize tx of None \<Rightarrow> 10000
                    | Some s \<Rightarrow> if s = 0 then 10000 else s * 120)),
            tx_rate := Some (orElseNum (tx_rate tx)
                     (case tx_fee tx of None \<Rightarrow> Num 1
                      | Some f \<Rightarrow> if f = 0 then Num 1 else jsDiv f (tx_vsize tx)))\<rparr>]"
  by (simp add: handleNewTransaction_def Let_def)

lemma enqueue_within_cap:
  "length (txQueue app) \<le> 5000 \<Longrightarrow> length (txQueue (handleNewTransaction tx app)) \<le> 5000"
  by (simp add: handleNewTransaction_queue_eq)

lemma enqueue_many_within_cap:
  "length (txQueue app) \<le> 5000 \<Longrightarrow> length (txQueue (fold handleNewTransaction txs app)) \<le> 5000"
  by (induction txs arbitrary: app) (simp_all add: enqueue_within_cap)

text \<open>
  C1, as the specification states it, is false: an insert into a queue of 5000 entries
  exceeds the cap and leaves 4501 entries, not at most 4500.
\<close>

theorem handleNewTransaction_at_cap:
  "length (txQueue
     \<lparr>txQueue = replicate 5000
         \<lparr>tx_txid = Some ''a'', tx_ident = None, tx_val = Some 10000, tx_fee = Some 200,
          tx_vsize = Some 100, tx_rate = Some (Num 2)\<rparr>,
      beatIndex = 0, isAudioStarted = False,
      mempoolStats = \<lparr>count = 0, vsize = 0, total_fee = 0\<rparr>,
      audioEngine = \<lparr>ctx = None, masterGain = None, reverb = False, isShakerStarted = False\<rparr>,
      visualizerRef = None\<rparr>) = 5000
   \<and> length (txQueue (handleNewTransaction
     \<lparr>tx_txid = Some ''b'', tx_ident = None, tx_val = Some 10000, tx_fee = Some 200,
      tx_vsize = Some 100, tx_rate = Some (Num 2)\<rparr>
     \<lparr>txQueue = replicate 5000
         \<lparr>tx_txid = Some ''a'', tx_ident = None, tx_val = Some 10000, tx_fee = Some 200,
          tx_vsize = Some 100, tx_rate = Some (Num 2)\<rparr>,
      beatIndex = 0, isAudioStarted = False,
      mempoolStats = \<lparr>count = 0, vsize = 0, total_fee = 0\<rparr>,
      audioEngine = \<lparr>ctx = None, masterGain = None, reverb = False, isShakerStarted = False\<rparr>,
      visualizerRef = None\<rparr>)) = 4501
   \<and> \<not> (4501::nat) \<le> 4500"
  by (simp add: handleNewTransaction_def Let_def)

text \<open>
  C1, amended: after every enqueue into a queue of at most 5000 entries, and so after any
  number of them, the queue length does not exceed 5000. An insert that exceeds the cap
  (the queue held 5000 entries or more) drops the oldest 500 entries in one bulk trim: the
  queue is then the old queue without its 500 oldest entries, followed by the newest
  entry, and its length is the old length minus 499, that is 4501 from a queue at the cap.
  An insert below the cap only appends. The newest entry is always retained. In particular
  a queue that holds 5200 entries after the push is trimmed to 4700.
\<close>

theorem handleNewTransaction_queue_cap:
  "\<exists>entry. (length (txQueue app) \<le> 5000 \<longrightarrow> length (txQueue (handleNewTransaction tx app)) \<le> 5000)
    \<and> (length (txQueue app) \<le> 5000 \<longrightarrow>
          length (txQueue (fold handleNewTransaction txs app)) \<le> 5000)
    \<and> (5000 \<le> length (txQueue app) \<longrightarrow>
          txQueue (handleNewTransaction tx app) = drop 500 (txQueue app) @ [entry]
          \<and> length (txQueue (handleNewTransaction tx app)) = length (txQueue app) - 499)
    \<and> (length (txQueue app) = 5000 \<longrightarrow> length (txQueue (handleNewTransaction tx app)) = 4501)
    \<and> (length (txQueue app) < 5000 \<longrightarrow>
          txQueue (handleNewTransaction tx app) = txQueue app @ [entry])
    \<and> (length (txQueue app) + 1 = 5200 \<longrightarrow> length (txQueue (handleNewTransaction tx app)) = 4700)
    \<and> last (txQueue (handleNewTransaction tx app)) = entry
    \<and> tx_txid entry = tx_txid tx \<and> tx_ident entry = tx_ident tx"
proof -
  define v where "v = orElse (tx_val tx)
                   (case tx_vsize tx of None \<Rightarrow> 10000
                    | Some s \<Rightarrow> if s = 0 then 10000 else s * 120)"
  define r where "r = orElseNum (tx_rate tx)
                     (case tx_fee tx of None \<Rightarrow> Num 1
                      | Some f \<Rightarrow> if f = 0 then Num 1 else jsDiv f (tx_vsize tx))"
  have q: "txQueue (handleNewTransaction tx app) =
      (if length (txQueue app) \<ge> 5000 then drop 500 (txQueue app) else txQueue app)
      @ [tx\<lparr>tx_val := Some v, tx_rate := Some r\<rparr>]"
    unfolding v_def r_def by (rule handleNewTransaction_queue_eq)
  let ?entry = "tx\<lparr>tx_val := Some v, tx_rate := Some r\<rparr>"
  have "length (txQueue app) \<le> 5000 \<longrightarrow> length (txQueue (handleNewTransaction tx app)) \<le> 5000"
    by (simp add: q)
  moreover have "length (txQueue app) \<le> 5000 \<longrightarrow>
          length (txQueue (fold handleNewTransaction txs app)) \<le> 5000"
    by (simp add: enqueue_many_within_cap)
  moreover have "5000 \<le> length (txQueue app) \<longrightarrow>
          txQueue (handleNewTransaction tx app) = drop 500 (txQueue app) @ [?entry]
          \<and> length (txQueue (handleNewTransaction tx app)) = length (txQueue app) - 499"
    by (auto simp add: q)
  moreover have "length (txQueue app) = 5000 \<longrightarrow> length (txQueue (handleNewTransaction tx app)) = 4501"
    by (simp add: q)
  moreover have "length (txQueue app) < 5000 \<longrightarrow>
          txQueue (handleNewTransaction tx app) = txQueue app @ [?entry]"
    by (simp add: q)
  moreover have "length (txQueue app) + 1 = 5200 \<longrightarrow> length (txQueue (handleNewTransaction tx app)) = 4700"
    by (simp add: q)
  moreover have "last (txQueue (handleNewTransaction tx app)) = ?entry"
    by (simp add: q)
  moreover have "tx_txid ?entry = tx_txid tx \<and> tx_ident ?entry = tx_ident tx" by simp
  ultimately show ?thesis by blast
qed

theorem handleNewTransaction_queue_cap_witness:
  "length (txQueue
     \<lparr>txQueue = replicate 5000
         \<lparr>tx_txid = Some ''a'', tx_ident = None, tx_val = Some 10000, tx_fee = Some 200,
          tx_vsize = Some 100, tx_rate = Some (Num 2)\<rparr>,
      beatIndex = 0, isAudioStarted = False,
      mempoolStats = \<lparr>count = 0, vsize = 0, total_fee = 0\<rparr>,
      audioEngine = \<lparr>ctx = None, masterGain = None, reverb = False, isShakerStarted = False\<rparr>,
      visualizerRef = None\<rparr>) = 5000
   \<and> length (txQueue (handleNewTransaction
     \<lparr>tx_txid = Some ''b'', tx_ident = None, tx_val = Some 10000, tx_fee = Some 200,
      tx_vsize = Some 100, tx_rate = Some (Num 2)\<rparr>
     \<lparr>txQueue = replicate 5000
         \<lparr>tx_txid = Some ''a'', tx_ident = None, tx_val = Some 10000, tx_fee = Some 200,
          tx_vsize = Some 100, tx_rate = Some (Num 2)\<rparr>,
      beatIndex = 0, isAudioStarted = False,
      mempoolStats = \<lparr>count = 0, vsize = 0, total_fee = 0\<rparr>,
      audioEngine = \<lparr>ctx = None, masterGain = None, reverb = False, isShakerStarted = False\<rparr>,
      visualizerRef = None\<rparr>)) \<le> 5000
   \<and> tx_txid (last (txQueue (handleNewTransaction
     \<lparr>tx_txid = Some ''b'', tx_ident = None, tx_val = Some 10000, tx_fee = Some 200,
      tx_vsize = Some 100, tx_rate = Some (Num 2)\<rparr>
     \<lparr>txQueue = replicate 5000
         \<lparr>tx_txid = Some ''a'', tx_ident = None, tx_val = Some 10000, tx_fee = Some 200,
          tx_vsize = Some 100, tx_rate = Some (Num 2)\<rparr>,
      beatIndex = 0, isAudioStarted = False,
      mempoolStats = \<lparr>count = 0, vsize = 0, total_fee = 0\<rparr>,
      audioEngine = \<lparr>ctx = None, masterGain = None, reverb = False, isShakerStarted = False\<rparr>,
      visualizerRef = None\<rparr>))) = Some ''b''"
  using handleNewTransaction_queue_cap[of
     "\<lparr>txQueue = replicate 5000
         \<lparr>tx_txid = Some ''a'', tx_ident = None, tx_val = Some 10000, tx_fee = Some 200,
          tx_vsize = Some 100, tx_rate = Some (Num 2)\<rparr>,
      beatIndex = 0, isAudioStarted = False,
      mempoolStats = \<lparr>count = 0, vsize = 0, total_fee = 0\<rparr>,
      audioEngine = \<lparr>ctx = None, masterGain = None, reverb = False, isShakerStarted = False\<rparr>,
      visualizerRef = None\<rparr>"
     "\<lparr>tx_txid = Some ''b'', tx_ident = None, tx_val = Some 10000, tx_fee = Some 200,
      tx_vsize = Some 100, tx_rate = Some (Num 2)\<rparr>"]
  by auto

section \<open>Voices of a transaction\<close>

lemma jsRem_nonneg: "0 \<le> a \<Longrightarrow> jsRem a 16 = a mod 16"
  by (cases "a = 0") (simp_all add: jsRem_def)

lemma jsRem_nat: "jsRem (int b) 16 = int (b mod 16)"
  by (simp add: jsRem_nonneg zmod_int)

lemma createOrganSkank_running:
  assumes "ctx e = Some c" "masterGain e = Some g"
  shows "createOrganSkank f e = e\<lparr>ctx := Some (c\<lparr>started := started c @ organPartials f (currentTime c)\<rparr>)\<rparr>"
  using assms by (simp add: createOrganSkank_def startVoices_def)

lemma createWhaleStrike_running:
  assumes "ctx e = Some c" "masterGain e = Some g"
  shows "createWhaleStrike v e = e\<lparr>ctx := Some (c\<lparr>started := started c @
      [\<lparr>v_source = WhaleStrike, v_wave = Sine, v_frequency = 49, v_start = currentTime c,
        v_stop = currentTime c + 5.0 + 0.1, v_peak = 0.4, v_reverb = False\<rparr>]\<rparr>)\<rparr>"
  using assms by (simp add: createWhaleStrike_def startVoices_def Let_def)

lemma createSteelDrumStrike_running:
  assumes "ctx e = Some c" "masterGain e = Some g"
  shows "createSteelDrumStrike (Some f) v e = Inr (e\<lparr>ctx := Some (c\<lparr>started := started c @
      [\<lparr>v_source = SteelDrumStrike, v_wave = Triangle, v_frequency = f, v_start = currentTime c,
        v_stop = currentTime c + 1.5 + 0.1, v_peak = 0.2 + sqrt v * 0.1,
        v_reverb = reverb e\<rparr>]\<rparr>)\<rparr>)"
  using assms by (simp add: createSteelDrumStrike_def startVoices_def Let_def)

lemma createMarimbaStrike_running:
  assumes "ctx e = Some c" "masterGain e = Some g"
  shows "createMarimbaStrike (Some f) v e = Inr (e\<lparr>ctx := Some (c\<lparr>started := started c @
      [\<lparr>v_source = MarimbaStrike, v_wave = Sine, v_frequency = f, v_start = currentTime c,
        v_stop = currentTime c + 0.8 + 0.1, v_peak = 0.15 + (v * 3), v_reverb = False\<rparr>]\<rparr>)\<rparr>)"
  using assms by (simp add: createMarimbaStrike_def startVoices_def Let_def)

lemma createUkulelePluck_running:
  assumes "ctx e = Some c" "masterGain e = Some g"
  shows "createUkulelePluck (Some f) v e = Inr (e\<lparr>ctx := Some (c\<lparr>started := started c @
      [\<lparr>v_source = UkulelePluck, v_wave = Triangle, v_frequency = f * 2, v_start = currentTime c,
        v_stop = currentTime c + 0.4 + 0.1, v_peak = 0.1 + (v * 10), v_reverb = False\<rparr>]\<rparr>)\<rparr>)"
  using assms by (simp add: createUkulelePluck_def startVoices_def Let_def)

text \<open>
  What a running engine starts for one call of \<open>playTransaction\<close>: the organ accent when
  the beat asks for it, then one pitched voice when the value is positive.
\<close>

lemma playTransaction_running:
  assumes c: "ctx e = Some c" and run: "state c = Running" and g: "masterGain e = Some g"
  shows "\<exists>e' c' vs. playTransaction e rnd (Num v) b = Inr e' \<and> ctx e' = Some c'
      \<and> state c' = Running \<and> masterGain e' = Some g
      \<and> started c' = started c
          @ (if jsRem b 16 \<in> {4, 12} \<and> (0 < v \<or> rnd < 0.3)
             then organPartials 392 (currentTime c) else [])
          @ vs
      \<and> (v \<le> 0 \<longrightarrow> vs = [])
      \<and> (0 < v \<longrightarrow> (\<exists>vc. vs = [vc] \<and> v_source vc =
            (if 100000000 \<le> v then WhaleStrike
             else if 10000000 \<le> v then SteelDrumStrike
             else if 1000000 \<le> v then MarimbaStrike else UkulelePluck)))"
proof -
  let ?btc = "v / 100000000"
  let ?acc = "(if jsRem b 16 \<in> {4, 12} \<and> (0 < v \<or> rnd < 0.3)
             then organPartials 392 (currentTime c) else [])"
  define e1 where "e1 = (if jsRem b 16 \<in> {4, 12} \<and> (?btc > 0 \<or> rnd < 0.3)
                    then createOrganSkank 392.00 e else e)"
  define c1 where "c1 = c\<lparr>started := started c @ ?acc\<rparr>"
  have e1: "e1 = e\<lparr>ctx := Some c1\<rparr>"
    using c g by (simp add: e1_def c1_def createOrganSkank_running)
  have c1: "ctx e1 = Some c1" "masterGain e1 = Some g" using g by (simp_all add: e1)
  have c1s: "state c1 = Running" "started c1 = started c @ ?acc" "currentTime c1 = currentTime c"
    using run by (simp_all add: c1_def)
  have pt: "playTransaction e rnd (Num v) b =
      (if ?btc \<le> 0 then Inr e1
       else if ?btc \<ge> 1.0 then Inr (createWhaleStrike (Num ?btc) e1)
       else if ?btc \<ge> 0.1 then
         createSteelDrumStrike (getFrequencyFromValue ?btc 0.1 1.0) ?btc e1
       else if ?btc \<ge> 0.01 then
         createMarimbaStrike (getFrequencyFromValue ?btc 0.01 0.1) ?btc e1
       else
         createUkulelePluck (getFrequencyFromValue ?btc 0.00001 0.01) ?btc e1)"
    using c run by (simp add: playTransaction_def e1_def Let_def)
  obtain f1 where f1: "getFrequencyFromValue ?btc 0.1 1.0 = Some f1"
    using frequency_defined[of "0.1" "1.0" ?btc] by auto
  obtain f2 where f2: "getFrequencyFromValue ?btc 0.01 0.1 = Some f2"
    using frequency_defined[of "0.01" "0.1" ?btc] by auto
  obtain f3 where f3: "getFrequencyFromValue ?btc 0.00001 0.01 = Some f3"
    using frequency_defined[of "0.00001" "0.01" ?btc] by auto
  consider (ghost) "v \<le> 0" | (whale) "100000000 \<le> v"
    | (steel) "10000000 \<le> v" "v < 100000000" | (marimba) "1000000 \<le> v" "v < 10000000"
    | (pluck) "0 < v" "v < 1000000"
    by linarith
  then show ?thesis
  proof cases
    case ghost
    then have "playTransaction e rnd (Num v) b = Inr e1" by (simp add: pt)
    then show ?thesis using c1 c1s ghost by simp
  next
    case whale
    have "playTransaction e rnd (Num v) b = Inr (createWhaleStrike (Num ?btc) e1)"
      using whale by (simp add: pt)
    then show ?thesis
      using c1 c1s whale by (simp add: createWhaleStrike_running[OF c1])
  next
    case steel
    have "playTransaction e rnd (Num v) b = createSteelDrumStrike (Some f1) ?btc e1"
      using steel f1 by (simp add: pt)
    then show ?thesis
      using c1 c1s steel by (simp add: createSteelDrumStrike_running[OF c1])
  next
    case marimba
    have "playTransaction e rnd (Num v) b = createMarimbaStrike (Some f2) ?btc e1"
      using marimba f2 by (simp add: pt)
    then show ?thesis
      using c1 c1s marimba by (simp add: createMarimbaStrike_running[OF c1])
  next
    case pluck
    have "playTransaction e rnd (Num v) b = createUkulelePluck (Some f3) ?btc e1"
      using pluck f3 by (simp add: pt)
    then show ?thesis
      using c1 c1s pluck by (simp add: createUkulelePluck_running[OF c1])
  qed
qed

section \<open>The dispatcher\<close>

lemma stepDuration_eq:
  "max 40 ((if beatIndex app mod 2 = 0
            then BASE_INTERVAL * (if length (txQueue app) > 100 then 1.8 else 1.4)
            else BASE_INTERVAL * (2 - (if length (txQueue app) > 100 then 1.8 else 1.4)))
           / min 2.5 (1 + real (length (txQueue app)) / 150))
   = spec_stepDuration BASE_INTERVAL (length (txQueue app)) (beatIndex app)"
  by (simp add: spec_stepDuration_def spec_swingFactor_def even_iff_mod_2_eq_zero)

lemma processNextTransaction_unfold:
  "processNextTransaction d app =
    (case
      (if length (txQueue app) > 0
          \<and> d_play d < (if beatIndex app mod 4 = 0 then 0.95 else 0.6) then
         (case txQueue app of [] \<Rightarrow> Inr app
          | tx # rest \<Rightarrow>
             (case playTransaction (audioEngine app) (d_skank d)
                     (Num (orElse (tx_val tx) 0))
                     (int (beatIndex app)) of
                Inl err \<Rightarrow> Inl err
              | Inr e' \<Rightarrow> Inr (app\<lparr>txQueue := rest, audioEngine := e',
                  visualizerRef := map_option
                    (addTransaction (d_bubble d)
                       (orElseStr (tx_txid tx) (tx_ident tx) Some)
                       (orElse (tx_val tx) 0)
                       (orElseNum (tx_rate tx) (Num 1)))
                    (visualizerRef app)\<rparr>)))
       else if beatIndex app mod 2 = 0 \<and> isAudioStarted app \<and> d_ghost d < 0.2 then
         (case playTransaction (audioEngine app) (d_skank d) (Num 0) (int (beatIndex app)) of
            Inl err \<Rightarrow> Inl err
          | Inr e' \<Rightarrow> Inr (app\<lparr>audioEngine := e'\<rparr>))
       else Inr app)
     of Inl err \<Rightarrow> Inl err
      | Inr app' \<Rightarrow> Inr (app'\<lparr>beatIndex := (beatIndex app' + 1) mod 16\<rparr>,
          spec_stepDuration BASE_INTERVAL (length (txQueue app)) (beatIndex app)))"
  by (simp only: processNextTransaction_def Let_def stepDuration_eq)

lemma processNextTransaction_popped:
  assumes "txQueue app = tx # rest"
    and "d_play d < (if beatIndex app mod 4 = 0 then 0.95 else 0.6)"
    and "playTransaction (audioEngine app) (d_skank d)
           (Num (orElse (tx_val tx) 0)) (int (beatIndex app)) = Inr e'"
  shows "\<exists>app'. processNextTransaction d app =
        Inr (app', spec_stepDuration BASE_INTERVAL (length (txQueue app)) (beatIndex app))
      \<and> txQueue app' = rest \<and> audioEngine app' = e'
      \<and> beatIndex app' = (beatIndex app + 1) mod 16"
  using assms by (simp add: processNextTransaction_unfold)

lemma processNextTransaction_ghost:
  assumes "txQueue app = [] \<or> \<not> d_play d < (if beatIndex app mod 4 = 0 then 0.95 else 0.6)"
    and "beatIndex app mod 2 = 0" "isAudioStarted app" "d_ghost d < 0.2"
    and "playTransaction (audioEngine app) (d_skank d) (Num 0) (int (beatIndex app)) = Inr e'"
  shows "\<exists>app'. processNextTransaction d app =
        Inr (app', spec_stepDuration BASE_INTERVAL (length (txQueue app)) (beatIndex app))
      \<and> txQueue app' = txQueue app \<and> audioEngine app' = e'
      \<and> beatIndex app' = (beatIndex app + 1) mod 16"
  using assms by (auto simp add: processNextTransaction_unfold)

lemma processNextTransaction_idle:
  assumes "txQueue app = [] \<or> \<not> d_play d < (if beatIndex app mod 4 = 0 then 0.95 else 0.6)"
    and "\<not> (beatIndex app mod 2 = 0 \<and> isAudioStarted app \<and> d_ghost d < 0.2)"
  shows "\<exists>app'. processNextTransaction d app =
        Inr (app', spec_stepDuration BASE_INTERVAL (length (txQueue app)) (beatIndex app))
      \<and> txQueue app' = txQueue app \<and> audioEngine app' = audioEngine app
      \<and> beatIndex app' = (beatIndex app + 1) mod 16"
  using assms by (auto simp add: processNextTransaction_unfold)

lemma processNextTransaction_returns:
  "\<exists>app'. processNextTransaction d app =
        Inr (app', spec_stepDuration BASE_INTERVAL (length (txQueue app)) (beatIndex app))"
proof (cases "txQueue app = [] \<or> \<not> d_play d < (if beatIndex app mod 4 = 0 then 0.95 else 0.6)")
  case False
  then obtain tx rest where q: "txQueue app = tx # rest" by (cases "txQueue app") auto
  have p: "d_play d < (if beatIndex app mod 4 = 0 then 0.95 else 0.6)" using False by simp
  obtain e' where e': "playTransaction (audioEngine app) (d_skank d)
           (Num (orElse (tx_val tx) 0)) (int (beatIndex app)) = Inr e'"
    using playTransaction_returns by blast
  show ?thesis using processNextTransaction_popped[OF q p e'] by blast
next
  case True
  show ?thesis
  proof (cases "beatIndex app mod 2 = 0 \<and> isAudioStarted app \<and> d_ghost d < 0.2")
    case False
    then show ?thesis using processNextTransaction_idle[OF True] by blast
  next
    case g: True
    then have g1: "beatIndex app mod 2 = 0" and g2: "isAudioStarted app"
      and g3: "d_ghost d < 0.2"
      by simp_all
    obtain e' where e': "playTransaction (audioEngine app) (d_skank d) (Num 0) (int (beatIndex app)) = Inr e'"
      using playTransaction_returns by blast
    show ?thesis using processNextTransaction_ghost[OF True g1 g2 g3 e'] by blast
  qed
qed

text \<open>
  C7: every tick of the dispatcher returns, and the delay it schedules is the step
  duration of the specification for the queue length and the beat index at the start of
  the tick (swing factor 1.8 above 100 queued transactions and 1.4 otherwise, the nominal
  interval times the swing factor on even beats and times two minus the swing factor on odd
  beats, divided by \<open>min(2.5, 1 + qLen / 150)\<close>, floored at 40); it is never below 40.
\<close>

theorem processNextTransaction_stepDuration:
  "\<exists>app' dur. processNextTransaction d app = Inr (app', dur)
      \<and> dur = spec_stepDuration BASE_INTERVAL (length (txQueue app)) (beatIndex app)
      \<and> spec_swingFactor (length (txQueue app)) = (if length (txQueue app) > 100 then 1.8 else 1.4)
      \<and> dur = max 40
          ((if even (beatIndex app) then 200 * spec_swingFactor (length (txQueue app))
            else 200 * (2 - spec_swingFactor (length (txQueue app))))
           / min 2.5 (1 + real (length (txQueue app)) / 150))
      \<and> 40 \<le> dur"
proof -
  obtain app' where "processNextTransaction d app =
        Inr (app', spec_stepDuration BASE_INTERVAL (length (txQueue app)) (beatIndex app))"
    using processNextTransaction_returns by blast
  moreover have "spec_stepDuration BASE_INTERVAL (length (txQueue app)) (beatIndex app)
      = max 40
          ((if even (beatIndex app) then 200 * spec_swingFactor (length (txQueue app))
            else 200 * (2 - spec_swingFactor (length (txQueue app))))
           / min 2.5 (1 + real (length (txQueue app)) / 150))"
    by (simp add: spec_stepDuration_def BASE_INTERVAL_def)
  moreover have "40 \<le> spec_stepDuration BASE_INTERVAL (length (txQueue app)) (beatIndex app)"
    by (simp add: spec_stepDuration_def)
  moreover have "spec_swingFactor (length (txQueue app))
      = (if length (txQueue app) > 100 then 1.8 else 1.4)"
    by (simp add: spec_swingFactor_def)
  ultimately show ?thesis by blast
qed

theorem processNextTransaction_stepDuration_witness:
  "\<exists>app'. processNextTransaction
      \<lparr>d_play = 1 / 2, d_ghost = 1 / 2, d_skank = 1 / 2,
       d_bubble = \<lparr>r_id = ''0.5'', r_x = 1 / 2, r_vx = 1 / 2, r_vy = 1 / 2, r_pulse = 1 / 2,
                   r_noise = (\<lambda>i. 1 / 2)\<rparr>\<rparr>
      \<lparr>txQueue = replicate 300
         \<lparr>tx_txid = Some ''a'', tx_ident = None, tx_val = Some 10000, tx_fee = Some 200,
          tx_vsize = Some 100, tx_rate = Some (Num 2)\<rparr>,
       beatIndex = 1, isAudioStarted = False,
       mempoolStats = \<lparr>count = 0, vsize = 0, total_fee = 0\<rparr>,
       audioEngine = \<lparr>ctx = None, masterGain = None, reverb = False, isShakerStarted = False\<rparr>,
       visualizerRef = None\<rparr> = Inr (app', 40)"
proof -
  let ?d = "\<lparr>d_play = 1 / 2, d_ghost = 1 / 2, d_skank = 1 / 2,
       d_bubble = \<lparr>r_id = ''0.5'', r_x = 1 / 2, r_vx = 1 / 2, r_vy = 1 / 2, r_pulse = 1 / 2,
                   r_noise = (\<lambda>i. 1 / 2)\<rparr>\<rparr>"
  let ?app = "\<lparr>txQueue = replicate 300
         \<lparr>tx_txid = Some ''a'', tx_ident = None, tx_val = Some 10000, tx_fee = Some 200,
          tx_vsize = Some 100, tx_rate = Some (Num 2)\<rparr>,
       beatIndex = 1, isAudioStarted = False,
       mempoolStats = \<lparr>count = 0, vsize = 0, total_fee = 0\<rparr>,
       audioEngine = \<lparr>ctx = None, masterGain = None, reverb = False, isShakerStarted = False\<rparr>,
       visualizerRef = None\<rparr>"
  obtain app' dur where r: "processNextTransaction ?d ?app = Inr (app', dur)"
    "dur = max 40
          ((if even (beatIndex ?app) then 200 * spec_swingFactor (length (txQueue ?app))
            else 200 * (2 - spec_swingFactor (length (txQueue ?app))))
           / min 2.5 (1 + real (length (txQueue ?app)) / 150))"
    using processNextTransaction_stepDuration[of ?d ?app] by blast
  have "dur = 40" using r(2) by (simp add: spec_swingFactor_def)
  then show ?thesis using r(1) by blast
qed


section \<open>Values in the queue\<close>

lemma defaulted_value_positive:
  assumes "\<forall>v. tx_val tx = Some v \<longrightarrow> 0 \<le> v" "\<forall>s. tx_vsize tx = Some s \<longrightarrow> 0 \<le> s"
  shows "0 < orElse (tx_val tx)
                   (case tx_vsize tx of None \<Rightarrow> 10000
                    | Some s \<Rightarrow> if s = 0 then 10000 else s * 120)"
proof -
  have d: "0 < (case tx_vsize tx of None \<Rightarrow> (10000::real)
                    | Some s \<Rightarrow> if s = 0 then 10000 else s * 120)"
  proof (cases "tx_vsize tx")
    case None
    then show ?thesis by simp
  next
    case (Some s)
    then have "0 \<le> s" using assms(2) by simp
    then show ?thesis using Some by simp
  qed
  show ?thesis
  proof (cases "tx_val tx")
    case None
    then show ?thesis using d by (simp add: orElse_def)
  next
    case (Some v)
    then have "0 \<le> v" using assms(1) by simp
    then show ?thesis using Some d by (simp add: orElse_def)
  qed
qed

lemma defaulted_value_cases:
  "(\<forall>w. tx_val tx = Some w \<and> w \<noteq> 0 \<longrightarrow>
      orElse (tx_val tx) (case tx_vsize tx of None \<Rightarrow> 10000
                    | Some s \<Rightarrow> if s = 0 then 10000 else s * 120) = w)
   \<and> (tx_val tx = None \<or> tx_val tx = Some 0 \<longrightarrow>
        (\<forall>s. tx_vsize tx = Some s \<and> s \<noteq> 0 \<longrightarrow>
          orElse (tx_val tx) (case tx_vsize tx of None \<Rightarrow> 10000
                    | Some s \<Rightarrow> if s = 0 then 10000 else s * 120) = s * 120)
        \<and> (tx_vsize tx = None \<or> tx_vsize tx = Some 0 \<longrightarrow>
          orElse (tx_val tx) (case tx_vsize tx of None \<Rightarrow> 10000
                    | Some s \<Rightarrow> if s = 0 then 10000 else s * 120) = 10000))"
  by (auto simp add: orElse_def)

lemma pitched_last:
  assumes "ctx e = Some c" "state c = Running" "masterGain e = Some g" "0 < v"
  shows "\<exists>e' c' vc. playTransaction e rnd (Num v) b = Inr e' \<and> ctx e' = Some c'
      \<and> started c' = started c
          @ (if jsRem b 16 \<in> {4, 12} then organPartials 392 (currentTime c) else []) @ [vc]
      \<and> v_source vc \<in> {WhaleStrike, SteelDrumStrike, MarimbaStrike, UkulelePluck}"
proof -
  obtain e' c' vs where r: "playTransaction e rnd (Num v) b = Inr e'" "ctx e' = Some c'"
    "started c' = started c
          @ (if jsRem b 16 \<in> {4, 12} \<and> (0 < v \<or> rnd < 0.3)
             then organPartials 392 (currentTime c) else [])
          @ vs"
    "0 < v \<longrightarrow> (\<exists>vc. vs = [vc] \<and> v_source vc =
            (if 100000000 \<le> v then WhaleStrike
             else if 10000000 \<le> v then SteelDrumStrike
             else if 1000000 \<le> v then MarimbaStrike else UkulelePluck))"
    using playTransaction_running[OF assms(1,2,3), of rnd v b] by blast
  obtain vc where vc: "vs = [vc]" "v_source vc =
            (if 100000000 \<le> v then WhaleStrike
             else if 10000000 \<le> v then SteelDrumStrike
             else if 1000000 \<le> v then MarimbaStrike else UkulelePluck)"
    using r(4) assms(4) by blast
  have "v_source vc \<in> {WhaleStrike, SteelDrumStrike, MarimbaStrike, UkulelePluck}"
    by (simp add: vc(2))
  moreover have "started c' = started c
          @ (if jsRem b 16 \<in> {4, 12} then organPartials 392 (currentTime c) else []) @ [vc]"
    using r(3) assms(4) by (simp add: vc(1))
  ultimately show ?thesis using r(1,2) by blast
qed

text \<open>
  C9: when the value and the vsize of an ingested record are, where present, non-negative
  numbers, the object that \<open>handleNewTransaction\<close> pushes has a value above zero (the
  record's own value when it is not zero, else vsize times 120 when the vsize is not zero,
  else 10000), and a queue whose values are all positive stays so. Hence the transaction
  that the dispatcher pops from such a queue is forwarded to \<open>playTransaction\<close> with a
  strictly positive value, and a running engine starts for it one voice of a pitched tier
  (whale, steel drum, marimba or pluck).
\<close>

theorem queued_values_positive:
  assumes "\<forall>v. tx_val tx = Some v \<longrightarrow> 0 \<le> v" and "\<forall>s. tx_vsize tx = Some s \<longrightarrow> 0 \<le> s"
    and "\<forall>t \<in> set (txQueue app). \<exists>v. tx_val t = Some v \<and> 0 < v"
  shows "(\<exists>v. tx_val (last (txQueue (handleNewTransaction tx app))) = Some v \<and> 0 < v
          \<and> (\<forall>w. tx_val tx = Some w \<and> w \<noteq> 0 \<longrightarrow> v = w)
          \<and> (tx_val tx = None \<or> tx_val tx = Some 0 \<longrightarrow>
                (\<forall>s. tx_vsize tx = Some s \<and> s \<noteq> 0 \<longrightarrow> v = s * 120)
                \<and> (tx_vsize tx = None \<or> tx_vsize tx = Some 0 \<longrightarrow> v = 10000)))
    \<and> (\<forall>t \<in> set (txQueue (handleNewTransaction tx app)). \<exists>v. tx_val t = Some v \<and> 0 < v)
    \<and> (\<forall>d hd rest. txQueue app = hd # rest
          \<and> d_play d < (if beatIndex app mod 4 = 0 then 0.95 else 0.6) \<longrightarrow>
          (\<exists>v e' app' dur. tx_val hd = Some v \<and> 0 < v
            \<and> playTransaction (audioEngine app) (d_skank d) (Num v) (int (beatIndex app)) = Inr e'
            \<and> processNextTransaction d app = Inr (app', dur)
            \<and> audioEngine app' = e' \<and> txQueue app' = rest
            \<and> (\<forall>c g. ctx (audioEngine app) = Some c \<and> state c = Running
                  \<and> masterGain (audioEngine app) = Some g \<longrightarrow>
                (\<exists>c' vc. ctx e' = Some c'
                  \<and> started c' = started c
                      @ (if jsRem (int (beatIndex app)) 16 \<in> {4, 12}
                         then organPartials 392 (currentTime c) else [])
                      @ [vc]
                  \<and> v_source vc \<in> {WhaleStrike, SteelDrumStrike, MarimbaStrike, UkulelePluck}))))"
proof -
  define v0 where "v0 = orElse (tx_val tx)
                   (case tx_vsize tx of None \<Rightarrow> 10000
                    | Some s \<Rightarrow> if s = 0 then 10000 else s * 120)"
  define r0 where "r0 = orElseNum (tx_rate tx)
                     (case tx_fee tx of None \<Rightarrow> Num 1
                      | Some f \<Rightarrow> if f = 0 then Num 1 else jsDiv f (tx_vsize tx))"
  have pos: "0 < v0" unfolding v0_def using assms(1,2) by (rule defaulted_value_positive)
  have q: "txQueue (handleNewTransaction tx app) =
      (if length (txQueue app) \<ge> 5000 then drop 500 (txQueue app) else txQueue app)
      @ [tx\<lparr>tx_val := Some v0, tx_rate := Some r0\<rparr>]"
    unfolding v0_def r0_def by (rule handleNewTransaction_queue_eq)
  have p1: "\<exists>v. tx_val (last (txQueue (handleNewTransaction tx app))) = Some v \<and> 0 < v
          \<and> (\<forall>w. tx_val tx = Some w \<and> w \<noteq> 0 \<longrightarrow> v = w)
          \<and> (tx_val tx = None \<or> tx_val tx = Some 0 \<longrightarrow>
                (\<forall>s. tx_vsize tx = Some s \<and> s \<noteq> 0 \<longrightarrow> v = s * 120)
                \<and> (tx_vsize tx = None \<or> tx_vsize tx = Some 0 \<longrightarrow> v = 10000))"
  proof (intro exI conjI)
    show "tx_val (last (txQueue (handleNewTransaction tx app))) = Some v0" by (simp add: q)
    show "0 < v0" by (rule pos)
    show "\<forall>w. tx_val tx = Some w \<and> w \<noteq> 0 \<longrightarrow> v0 = w"
      unfolding v0_def using defaulted_value_cases[of tx] by blast
    show "tx_val tx = None \<or> tx_val tx = Some 0 \<longrightarrow>
                (\<forall>s. tx_vsize tx = Some s \<and> s \<noteq> 0 \<longrightarrow> v0 = s * 120)
                \<and> (tx_vsize tx = None \<or> tx_vsize tx = Some 0 \<longrightarrow> v0 = 10000)"
      unfolding v0_def using defaulted_value_cases[of tx] by blast
  qed
  have p2: "\<exists>v. tx_val t = Some v \<and> 0 < v" if "t \<in> set (txQueue (handleNewTransaction tx app))" for t
  proof -
    have "t \<in> set (txQueue app) \<or> tx_val t = Some v0"
      using that by (auto simp add: q split: if_splits dest: in_set_dropD)
    then show ?thesis using assms(3) pos by blast
  qed
  have p3: "\<exists>v e' app' dur. tx_val hd = Some v \<and> 0 < v
            \<and> playTransaction (audioEngine app) (d_skank d) (Num v) (int (beatIndex app)) = Inr e'
            \<and> processNextTransaction d app = Inr (app', dur)
            \<and> audioEngine app' = e' \<and> txQueue app' = rest
            \<and> (\<forall>c g. ctx (audioEngine app) = Some c \<and> state c = Running
                  \<and> masterGain (audioEngine app) = Some g \<longrightarrow>
                (\<exists>c' vc. ctx e' = Some c'
                  \<and> started c' = started c
                      @ (if jsRem (int (beatIndex app)) 16 \<in> {4, 12}
                         then organPartials 392 (currentTime c) else [])
                      @ [vc]
                  \<and> v_source vc \<in> {WhaleStrike, SteelDrumStrike, MarimbaStrike, UkulelePluck}))"
    if hd: "txQueue app = hd # rest"
      and play: "d_play d < (if beatIndex app mod 4 = 0 then 0.95 else 0.6)"
    for d hd rest
  proof -
    obtain v where v: "tx_val hd = Some v" "0 < v" using assms(3) hd by auto
    then have fw: "orElse (tx_val hd) 0 = v"
      by (simp add: orElse_def)
    obtain e' where e': "playTransaction (audioEngine app) (d_skank d) (Num v) (int (beatIndex app)) = Inr e'"
      using playTransaction_returns by blast
    obtain app' where app': "processNextTransaction d app =
        Inr (app', spec_stepDuration BASE_INTERVAL (length (txQueue app)) (beatIndex app))"
      "txQueue app' = rest" "audioEngine app' = e'"
      using processNextTransaction_popped[OF hd play, of e'] e' fw by auto
    have "\<exists>c' vc. ctx e' = Some c'
                  \<and> started c' = started c
                      @ (if jsRem (int (beatIndex app)) 16 \<in> {4, 12}
                         then organPartials 392 (currentTime c) else [])
                      @ [vc]
                  \<and> v_source vc \<in> {WhaleStrike, SteelDrumStrike, MarimbaStrike, UkulelePluck}"
      if "ctx (audioEngine app) = Some c" "state c = Running"
        "masterGain (audioEngine app) = Some g" for c g
      using pitched_last[OF that v(2), of "d_skank d" "int (beatIndex app)"] e' by auto
    then show ?thesis using v e' app' by blast
  qed
  show ?thesis
  proof (intro conjI)
    show "\<exists>v. tx_val (last (txQueue (handleNewTransaction tx app))) = Some v \<and> 0 < v
          \<and> (\<forall>w. tx_val tx = Some w \<and> w \<noteq> 0 \<longrightarrow> v = w)
          \<and> (tx_val tx = None \<or> tx_val tx = Some 0 \<longrightarrow>
                (\<forall>s. tx_vsize tx = Some s \<and> s \<noteq> 0 \<longrightarrow> v = s * 120)
                \<and> (tx_vsize tx = None \<or> tx_vsize tx = Some 0 \<longrightarrow> v = 10000))"
      by (rule p1)
    show "\<forall>t \<in> set (txQueue (handleNewTransaction tx app)). \<exists>v. tx_val t = Some v \<and> 0 < v"
      using p2 by blast
  qed (use p3 in blast)
qed

theorem queued_values_positive_witness:
  "tx_val (last (txQueue (handleNewTransaction
      \<lparr>tx_txid = Some ''b'', tx_ident = None, tx_val = Some 0, tx_fee = Some 500,
       tx_vsize = Some 250, tx_rate = None\<rparr>
      \<lparr>txQueue =
         [\<lparr>tx_txid = Some ''a'', tx_ident = None, tx_val = Some 50000000, tx_fee = Some 200,
           tx_vsize = Some 100, tx_rate = Some (Num 2)\<rparr>],
       beatIndex = 4, isAudioStarted = True,
       mempoolStats = \<lparr>count = 0, vsize = 0, total_fee = 0\<rparr>,
       audioEngine =
         \<lparr>ctx = Some \<lparr>state = Running, currentTime = 0, started = []\<rparr>,
          masterGain = Some (1 / 2), reverb = True, isShakerStarted = True\<rparr>,
       visualizerRef = None\<rparr>))) = Some 30000
   \<and> (\<exists>app' dur v. processNextTransaction
        \<lparr>d_play = 1 / 2, d_ghost = 1 / 2, d_skank = 1 / 2,
         d_bubble = \<lparr>r_id = ''0.5'', r_x = 1 / 2, r_vx = 1 / 2, r_vy = 1 / 2, r_pulse = 1 / 2,
                     r_noise = (\<lambda>i. 1 / 2)\<rparr>\<rparr>
        \<lparr>txQueue =
         [\<lparr>tx_txid = Some ''a'', tx_ident = None, tx_val = Some 50000000, tx_fee = Some 200,
           tx_vsize = Some 100, tx_rate = Some (Num 2)\<rparr>],
         beatIndex = 4, isAudioStarted = True,
         mempoolStats = \<lparr>count = 0, vsize = 0, total_fee = 0\<rparr>,
         audioEngine =
           \<lparr>ctx = Some \<lparr>state = Running, currentTime = 0, started = []\<rparr>,
            masterGain = Some (1 / 2), reverb = True, isShakerStarted = True\<rparr>,
         visualizerRef = None\<rparr> = Inr (app', dur)
      \<and> txQueue app' = []
      \<and> playTransaction
           \<lparr>ctx = Some \<lparr>state = Running, currentTime = 0, started = []\<rparr>,
            masterGain = Some (1 / 2), reverb = True, isShakerStarted = True\<rparr>
           (1 / 2) (Num v) 4 = Inr (audioEngine app')
      \<and> 0 < v)"
proof -
  let ?tx = "\<lparr>tx_txid = Some ''b'', tx_ident = None, tx_val = Some 0, tx_fee = Some 500,
       tx_vsize = Some 250, tx_rate = None\<rparr>"
  let ?hd = "\<lparr>tx_txid = Some ''a'', tx_ident = None, tx_val = Some 50000000, tx_fee = Some 200,
           tx_vsize = Some 100, tx_rate = Some (Num 2)\<rparr>"
  let ?e = "\<lparr>ctx = Some \<lparr>state = Running, currentTime = 0, started = []\<rparr>,
          masterGain = Some (1 / 2), reverb = True, isShakerStarted = True\<rparr>"
  let ?app = "\<lparr>txQueue = [?hd], beatIndex = 4, isAudioStarted = True,
       mempoolStats = \<lparr>count = 0, vsize = 0, total_fee = 0\<rparr>,
       audioEngine = ?e, visualizerRef = None\<rparr>"
  let ?d = "\<lparr>d_play = 1 / 2, d_ghost = 1 / 2, d_skank = 1 / 2,
         d_bubble = \<lparr>r_id = ''0.5'', r_x = 1 / 2, r_vx = 1 / 2, r_vy = 1 / 2, r_pulse = 1 / 2,
                     r_noise = (\<lambda>i. 1 / 2)\<rparr>\<rparr>"
  have h1: "\<forall>v. tx_val ?tx = Some v \<longrightarrow> 0 \<le> v" by simp
  have h2: "\<forall>s. tx_vsize ?tx = Some s \<longrightarrow> 0 \<le> s" by simp
  have h3: "\<forall>t \<in> set (txQueue ?app). \<exists>v. tx_val t = Some v \<and> 0 < v" by simp
  note w = queued_values_positive[OF h1 h2 h3]
  have a: "tx_val (last (txQueue (handleNewTransaction ?tx ?app))) = Some 30000"
    using w by simp
  have "txQueue ?app = ?hd # [] \<and> d_play ?d < (if beatIndex ?app mod 4 = 0 then 0.95 else 0.6)"
    by simp
  then obtain v e' app' dur where b: "tx_val ?hd = Some v" "0 < v"
    "playTransaction (audioEngine ?app) (d_skank ?d) (Num v) (int (beatIndex ?app)) = Inr e'"
    "processNextTransaction ?d ?app = Inr (app', dur)" "audioEngine app' = e'" "txQueue app' = []"
    using w by blast
  have "playTransaction ?e (1 / 2) (Num v) 4 = Inr (audioEngine app')" using b(3,5) by simp
  then show ?thesis using a b(2,4,6) by blast
qed

section \<open>The organ accent\<close>

lemma nonpositive_accent:
  assumes "ctx e = Some c" "state c = Running" "masterGain e = Some g" "v \<le> 0"
  shows "\<exists>e' c'. playTransaction e rnd (Num v) b = Inr e' \<and> ctx e' = Some c'
      \<and> started c' = started c
          @ (if jsRem b 16 \<in> {4, 12} \<and> rnd < 0.3 then organPartials 392 (currentTime c) else [])"
proof -
  obtain e' c' vs where r: "playTransaction e rnd (Num v) b = Inr e'" "ctx e' = Some c'"
    "started c' = started c
          @ (if jsRem b 16 \<in> {4, 12} \<and> (0 < v \<or> rnd < 0.3)
             then organPartials 392 (currentTime c) else [])
          @ vs"
    "v \<le> 0 \<longrightarrow> vs = []"
    using playTransaction_running[OF assms(1,2,3), of rnd v b] by blast
  then have "started c' = started c
          @ (if jsRem b 16 \<in> {4, 12} \<and> rnd < 0.3 then organPartials 392 (currentTime c) else [])"
    using assms(4) by simp
  then show ?thesis using r(1,2) by blast
qed

lemma skank_beat_even:
  assumes "jsRem (int b) 16 \<in> {4, 12}"
  shows "b mod 2 = 0"
proof -
  have "b mod 16 = 4 \<or> b mod 16 = 12" using assms by (auto simp add: jsRem_nat)
  then show ?thesis by presburger
qed

lemma organPartials_392:
  "organPartials 392 t =
    [\<lparr>v_source = OrganSkank, v_wave = Triangle, v_frequency = 392, v_start = t,
      v_stop = t + 1 / 4, v_peak = 2 / 25, v_reverb = False\<rparr>,
     \<lparr>v_source = OrganSkank, v_wave = Sine, v_frequency = 784, v_start = t,
      v_stop = t + 1 / 4, v_peak = 1 / 25, v_reverb = False\<rparr>,
     \<lparr>v_source = OrganSkank, v_wave = Sine, v_frequency = 588, v_start = t,
      v_stop = t + 1 / 4, v_peak = 2 / 75, v_reverb = False\<rparr>]"
  by (simp add: organPartials_def)

text \<open>
  C6, as the specification states it, is false. A record with the value -5 is queued
  unchanged; when the dispatcher pops it on beat 4, with the engine running and a draw of
  0.5, the transaction leaves the queue and no voice is started: a popped transaction does
  not by itself trigger the accent. And before the audio context exists, the same tick
  with a popped value of 50000000 starts nothing either.
\<close>

theorem popped_without_accent:
  "(case processNextTransaction
           \<lparr>d_play = 1 / 2, d_ghost = 1 / 2, d_skank = 1 / 2,
            d_bubble = \<lparr>r_id = ''0.5'', r_x = 1 / 2, r_vx = 1 / 2, r_vy = 1 / 2,
                        r_pulse = 1 / 2, r_noise = (\<lambda>i. 1 / 2)\<rparr>\<rparr>
           (handleNewTransaction
              \<lparr>tx_txid = Some ''a'', tx_ident = None, tx_val = Some (- 5), tx_fee = Some 200,
               tx_vsize = Some 100, tx_rate = Some (Num 2)\<rparr>
              \<lparr>txQueue = [], beatIndex = 4, isAudioStarted = True,
               mempoolStats = \<lparr>count = 0, vsize = 0, total_fee = 0\<rparr>,
               audioEngine =
                 \<lparr>ctx = Some \<lparr>state = Running, currentTime = 0, started = []\<rparr>,
                  masterGain = Some (1 / 2), reverb = True, isShakerStarted = True\<rparr>,
               visualizerRef = None\<rparr>) of
      Inl err \<Rightarrow> None
    | Inr (app', dur) \<Rightarrow> Some (txQueue app', map_option started (ctx (audioEngine app'))))
   = Some ([], Some [])
   \<and> (case processNextTransaction
           \<lparr>d_play = 1 / 2, d_ghost = 1 / 2, d_skank = 1 / 2,
            d_bubble = \<lparr>r_id = ''0.5'', r_x = 1 / 2, r_vx = 1 / 2, r_vy = 1 / 2,
                        r_pulse = 1 / 2, r_noise = (\<lambda>i. 1 / 2)\<rparr>\<rparr>
           (handleNewTransaction
              \<lparr>tx_txid = Some ''a'', tx_ident = None, tx_val = Some 50000000, tx_fee = Some 200,
               tx_vsize = Some 100, tx_rate = Some (Num 2)\<rparr>
              \<lparr>txQueue = [], beatIndex = 4, isAudioStarted = False,
               mempoolStats = \<lparr>count = 0, vsize = 0, total_fee = 0\<rparr>,
               audioEngine =
                 \<lparr>ctx = None, masterGain = None, reverb = False, isShakerStarted = False\<rparr>,
               visualizerRef = None\<rparr>) of
      Inl err \<Rightarrow> None
    | Inr (app', dur) \<Rightarrow> Some (txQueue app', ctx (audioEngine app')))
   = Some ([], None)"
  by (simp add: processNextTransaction_unfold handleNewTransaction_def playTransaction_def
      orElse_def orElseNum_def orElseStr_def jsRem_def Let_def)

text \<open>
  C6, amended: when the audio context is running and the master gain exists, whenever
  \<open>playTransaction\<close> is invoked with a beat position \<open>p \<ge> 0\<close> such that \<open>p mod 16\<close> is 4 or
  12, the organ accent (three partials at the fixed pitches 392, 784 and 588 Hz) is
  triggered whenever the forwarded value is positive, whatever the random draw, and is then
  followed by the pitched voice of the value; for a value that is zero or negative it is
  triggered exactly when the random draw is below 0.3, and nothing else is started. In the
  dispatcher, on such a beat, a tick that pops a transaction from a queue of positive
  values (as non-negative ingested values give) starts the accent and then the voice of the
  popped transaction, and a tick that sends the ghost cue starts the accent exactly when
  the draw is below 0.3.
\<close>

theorem skank_accent:
  assumes "ctx e = Some c" and "state c = Running" and "masterGain e = Some g"
    and "0 \<le> p" and "p mod 16 \<in> {4, 12}"
  shows "(0 < v \<longrightarrow> (\<exists>e' c' vc. playTransaction e rnd (Num v) p = Inr e' \<and> ctx e' = Some c'
            \<and> started c' = started c @ organPartials 392 (currentTime c) @ [vc]
            \<and> v_source vc \<in> {WhaleStrike, SteelDrumStrike, MarimbaStrike, UkulelePluck}))
    \<and> (v \<le> 0 \<longrightarrow> (\<exists>e' c'. playTransaction e rnd (Num v) p = Inr e' \<and> ctx e' = Some c'
            \<and> started c' = started c
                @ (if rnd < 0.3 then organPartials 392 (currentTime c) else [])))
    \<and> organPartials 392 (currentTime c) =
        [\<lparr>v_source = OrganSkank, v_wave = Triangle, v_frequency = 392,
          v_start = currentTime c, v_stop = currentTime c + 1 / 4, v_peak = 2 / 25,
          v_reverb = False\<rparr>,
         \<lparr>v_source = OrganSkank, v_wave = Sine, v_frequency = 784,
          v_start = currentTime c, v_stop = currentTime c + 1 / 4, v_peak = 1 / 25,
          v_reverb = False\<rparr>,
         \<lparr>v_source = OrganSkank, v_wave = Sine, v_frequency = 588,
          v_start = currentTime c, v_stop = currentTime c + 1 / 4, v_peak = 2 / 75,
          v_reverb = False\<rparr>]
    \<and> (\<forall>app d hd rest. audioEngine app = e \<and> int (beatIndex app) = p
          \<and> (\<forall>t \<in> set (txQueue app). \<exists>w. tx_val t = Some w \<and> 0 < w)
          \<and> txQueue app = hd # rest
          \<and> d_play d < (if beatIndex app mod 4 = 0 then 0.95 else 0.6) \<longrightarrow>
          (\<exists>app' dur c' vc. processNextTransaction d app = Inr (app', dur)
            \<and> txQueue app' = rest \<and> ctx (audioEngine app') = Some c'
            \<and> started c' = started c @ organPartials 392 (currentTime c) @ [vc]
            \<and> v_source vc \<in> {WhaleStrike, SteelDrumStrike, MarimbaStrike, UkulelePluck}))
    \<and> (\<forall>app d. audioEngine app = e \<and> int (beatIndex app) = p
          \<and> (txQueue app = [] \<or> \<not> d_play d < (if beatIndex app mod 4 = 0 then 0.95 else 0.6))
          \<and> isAudioStarted app \<and> d_ghost d < 0.2 \<longrightarrow>
          (\<exists>app' dur c'. processNextTransaction d app = Inr (app', dur)
            \<and> txQueue app' = txQueue app \<and> ctx (audioEngine app') = Some c'
            \<and> started c' = started c
                @ (if d_skank d < 0.3 then organPartials 392 (currentTime c) else [])))"
proof -
  have sk: "jsRem p 16 \<in> {4, 12}" using assms(4,5) by (simp add: jsRem_nonneg)
  have p1: "\<exists>e' c' vc. playTransaction e rnd (Num v) p = Inr e' \<and> ctx e' = Some c'
            \<and> started c' = started c @ organPartials 392 (currentTime c) @ [vc]
            \<and> v_source vc \<in> {WhaleStrike, SteelDrumStrike, MarimbaStrike, UkulelePluck}"
    if "0 < v" for v rnd
    using pitched_last[OF assms(1,2,3) that, of rnd p] sk by simp
  have p2: "\<exists>e' c'. playTransaction e rnd (Num v) p = Inr e' \<and> ctx e' = Some c'
            \<and> started c' = started c
                @ (if rnd < 0.3 then organPartials 392 (currentTime c) else [])"
    if "v \<le> 0" for v rnd
    using nonpositive_accent[OF assms(1,2,3) that, of rnd p] sk by simp
  have p4: "\<exists>app' dur c' vc. processNextTransaction d app = Inr (app', dur)
            \<and> txQueue app' = rest \<and> ctx (audioEngine app') = Some c'
            \<and> started c' = started c @ organPartials 392 (currentTime c) @ [vc]
            \<and> v_source vc \<in> {WhaleStrike, SteelDrumStrike, MarimbaStrike, UkulelePluck}"
    if a: "audioEngine app = e" "int (beatIndex app) = p"
      "\<forall>t \<in> set (txQueue app). \<exists>w. tx_val t = Some w \<and> 0 < w"
      "txQueue app = hd # rest"
      "d_play d < (if beatIndex app mod 4 = 0 then 0.95 else 0.6)"
    for app d hd rest
  proof -
    obtain w where w: "tx_val hd = Some w" "0 < w" using a(3,4) by auto
    then have fw: "orElse (tx_val hd) 0 = w"
      by (simp add: orElse_def)
    obtain e' c' vc where r: "playTransaction e (d_skank d) (Num w) p = Inr e'" "ctx e' = Some c'"
      "started c' = started c @ organPartials 392 (currentTime c) @ [vc]"
      "v_source vc \<in> {WhaleStrike, SteelDrumStrike, MarimbaStrike, UkulelePluck}"
      using p1[OF w(2), of "d_skank d"] by blast
    have "playTransaction (audioEngine app) (d_skank d)
           (Num (orElse (tx_val hd) 0)) (int (beatIndex app)) = Inr e'"
      using r(1) a(1,2) fw by simp
    then obtain app' where "processNextTransaction d app =
        Inr (app', spec_stepDuration BASE_INTERVAL (length (txQueue app)) (beatIndex app))"
      "txQueue app' = rest" "audioEngine app' = e'"
      using processNextTransaction_popped[OF a(4,5)] by blast
    then show ?thesis using r(2,3,4) by blast
  qed
  have p5: "\<exists>app' dur c'. processNextTransaction d app = Inr (app', dur)
            \<and> txQueue app' = txQueue app \<and> ctx (audioEngine app') = Some c'
            \<and> started c' = started c
                @ (if d_skank d < 0.3 then organPartials 392 (currentTime c) else [])"
    if a: "audioEngine app = e" "int (beatIndex app) = p"
      "txQueue app = [] \<or> \<not> d_play d < (if beatIndex app mod 4 = 0 then 0.95 else 0.6)"
      "isAudioStarted app" "d_ghost d < 0.2"
    for app d
  proof -
    have ev: "beatIndex app mod 2 = 0" using sk a(2) by (auto intro: skank_beat_even)
    have z: "(0::real) \<le> 0" by simp
    obtain e' c' where r: "playTransaction e (d_skank d) (Num 0) p = Inr e'" "ctx e' = Some c'"
      "started c' = started c
                @ (if d_skank d < 0.3 then organPartials 392 (currentTime c) else [])"
      using p2[OF z, of "d_skank d"] by blast
    have "playTransaction (audioEngine app) (d_skank d) (Num 0) (int (beatIndex app)) = Inr e'"
      using r(1) a(1,2) by simp
    then obtain app' where "processNextTransaction d app =
        Inr (app', spec_stepDuration BASE_INTERVAL (length (txQueue app)) (beatIndex app))"
      "txQueue app' = txQueue app" "audioEngine app' = e'"
      using processNextTransaction_ghost[OF a(3) ev a(4,5)] by blast
    then show ?thesis using r(2,3) by blast
  qed
  show ?thesis
  proof (intro conjI)
    show "organPartials 392 (currentTime c) =
        [\<lparr>v_source = OrganSkank, v_wave = Triangle, v_frequency = 392,
          v_start = currentTime c, v_stop = currentTime c + 1 / 4, v_peak = 2 / 25,
          v_reverb = False\<rparr>,
         \<lparr>v_source = OrganSkank, v_wave = Sine, v_frequency = 784,
          v_start = currentTime c, v_stop = currentTime c + 1 / 4, v_peak = 1 / 25,
          v_reverb = False\<rparr>,
         \<lparr>v_source = OrganSkank, v_wave = Sine, v_frequency = 588,
          v_start = currentTime c, v_stop = currentTime c + 1 / 4, v_peak = 2 / 75,
          v_reverb = False\<rparr>]"
      by (rule organPartials_392)
  qed (use p1 p2 p4 p5 in blast)+
qed

theorem skank_accent_witness:
  "(\<exists>e' c' vc. playTransaction
        \<lparr>ctx = Some \<lparr>state = Running, currentTime = 0, started = []\<rparr>,
         masterGain = Some (1 / 2), reverb = True, isShakerStarted = True\<rparr>
        (9 / 10) (Num 250000000) 4 = Inr e' \<and> ctx e' = Some c'
      \<and> started c' = organPartials 392 0 @ [vc]
      \<and> v_source vc \<in> {WhaleStrike, SteelDrumStrike, MarimbaStrike, UkulelePluck})
   \<and> (\<exists>e' c'. playTransaction
        \<lparr>ctx = Some \<lparr>state = Running, currentTime = 0, started = []\<rparr>,
         masterGain = Some (1 / 2), reverb = True, isShakerStarted = True\<rparr>
        (9 / 10) (Num 0) 4 = Inr e' \<and> ctx e' = Some c' \<and> started c' = [])
   \<and> map v_frequency (organPartials 392 0) = [392, 784, 588]"
proof -
  let ?c = "\<lparr>state = Running, currentTime = 0, started = []\<rparr>"
  let ?e = "\<lparr>ctx = Some ?c, masterGain = Some (1 / 2), reverb = True, isShakerStarted = True\<rparr>"
  have h1: "ctx ?e = Some ?c" by simp
  have h2: "state ?c = Running" by simp
  have h3: "masterGain ?e = Some (1 / 2)" by simp
  have h4: "(0::int) \<le> 4" by simp
  have h5: "(4::int) mod 16 \<in> {4, 12}" by simp
  have pos: "(0::real) < 250000000" by simp
  have zle: "(0::real) \<le> 0" by simp
  note w = skank_accent[OF h1 h2 h3 h4 h5, of 250000000 "9 / 10"]
  note z = skank_accent[OF h1 h2 h3 h4 h5, of 0 "9 / 10"]
  note a0 = mp[OF w[THEN conjunct1] pos]
  note b0 = mp[OF z[THEN conjunct2, THEN conjunct1] zle]
  note o0 = w[THEN conjunct2, THEN conjunct2, THEN conjunct1]
  have a: "\<exists>e' c' vc. playTransaction ?e (9 / 10) (Num 250000000) 4 = Inr e' \<and> ctx e' = Some c'
      \<and> started c' = organPartials 392 0 @ [vc]
      \<and> v_source vc \<in> {WhaleStrike, SteelDrumStrike, MarimbaStrike, UkulelePluck}"
    using a0 by simp
  have b: "\<exists>e' c'. playTransaction ?e (9 / 10) (Num 0) 4 = Inr e' \<and> ctx e' = Some c' \<and> started c' = []"
    using b0 by simp
  have "map v_frequency (organPartials 392 0) = [392, 784, 588]"
    using o0 by simp
  then show ?thesis using a b by blast
qed

end
